theory Spec2Isabelle
  imports Main "HOL-Library.Sublist"
begin

section \<open>Python values used by liquidsoap.py\<close>

text \<open>
  \<^verbatim>\<open>bytes\<close> and \<^verbatim>\<open>bytearray\<close> are lists of 8-bit characters; a Python \<^verbatim>\<open>str\<close> is a
  list of Unicode code points, so that slicing counts code points as Python does.
\<close>

type_synonym bytes = "char list"
type_synonym str = "nat list"

text \<open>
  The exceptions that can reach the code. \<open>ConnectionLost\<close> is the
  \<^verbatim>\<open>OSError('Connection lost')\<close> raised by \<^verbatim>\<open>send\<close> itself; \<open>TimeoutError\<close> is
  \<^verbatim>\<open>socket.timeout\<close>; \<open>Errno n\<close> is any other error reported by the operating system.
  All three are instances of \<^verbatim>\<open>OSError\<close>.
\<close>

datatype oserror = ConnectionLost | TimeoutError | Errno nat

datatype exc =
    OSError oserror
  | ValueError
  | OverflowError
  | UnicodeEncodeError
  | UnicodeDecodeError
  | AttributeError

datatype 'a res = Return 'a | Raise exc

definition EBADF :: nat where "EBADF = 9"
definition ENOTCONN :: nat where "ENOTCONN = 107"

definition str_of :: "string \<Rightarrow> str" where
  "str_of s = map of_char s"

subsection \<open>str.strip, str.encode, bytes.decode, int\<close>

definition isspace :: "nat \<Rightarrow> bool" where
  "isspace c \<longleftrightarrow>
     (9 \<le> c \<and> c \<le> 13) \<or> (28 \<le> c \<and> c \<le> 32) \<or> c = 0x85 \<or> c = 0xA0 \<or> c = 0x1680 \<or>
     (0x2000 \<le> c \<and> c \<le> 0x200A) \<or> c = 0x2028 \<or> c = 0x2029 \<or> c = 0x202F \<or>
     c = 0x205F \<or> c = 0x3000"

definition strip :: "str \<Rightarrow> str" where
  "strip s = rev (dropWhile isspace (rev (dropWhile isspace s)))"

definition surrogate :: "nat \<Rightarrow> bool" where
  "surrogate cp \<longleftrightarrow> 0xD800 \<le> cp \<and> cp \<le> 0xDFFF"

definition encode_cp :: "nat \<Rightarrow> bytes option" where
  "encode_cp cp =
     (if cp < 0x80 then Some [char_of cp]
      else if cp < 0x800 then Some [char_of (0xC0 + cp div 64), char_of (0x80 + cp mod 64)]
      else if surrogate cp then None
      else if cp < 0x10000 then
        Some [char_of (0xE0 + cp div 4096), char_of (0x80 + (cp div 64) mod 64),
              char_of (0x80 + cp mod 64)]
      else if cp < 0x110000 then
        Some [char_of (0xF0 + cp div 262144), char_of (0x80 + (cp div 4096) mod 64),
              char_of (0x80 + (cp div 64) mod 64), char_of (0x80 + cp mod 64)]
      else None)"

fun encode :: "str \<Rightarrow> exc + bytes" where
  "encode [] = Inr []"
| "encode (cp # cps) =
     (case encode_cp cp of
        None \<Rightarrow> Inl UnicodeEncodeError
      | Some bs \<Rightarrow> (case encode cps of Inl e \<Rightarrow> Inl e | Inr r \<Rightarrow> Inr (bs @ r)))"

definition cont :: "char \<Rightarrow> bool" where
  "cont b \<longleftrightarrow> 0x80 \<le> (of_char b :: nat) \<and> (of_char b :: nat) < 0xC0"

definition low6 :: "char \<Rightarrow> nat" where
  "low6 b = of_char b mod 64"

text \<open>Strict UTF-8: no overlong forms, no surrogates, nothing above U+10FFFF.\<close>

fun utf8_decode :: "bytes \<Rightarrow> str option" where
  "utf8_decode [] = Some []"
| "utf8_decode (b # bs) =
     (let n = (of_char b :: nat) in
      if n < 0x80 then map_option ((#) n) (utf8_decode bs)
      else if n < 0xC0 then None
      else if n < 0xE0 then
        (case bs of
           b1 # r \<Rightarrow>
             (let cp = (n - 0xC0) * 64 + low6 b1 in
              if cont b1 \<and> 0x80 \<le> cp then map_option ((#) cp) (utf8_decode r) else None)
         | _ \<Rightarrow> None)
      else if n < 0xF0 then
        (case bs of
           b1 # b2 # r \<Rightarrow>
             (let cp = ((n - 0xE0) * 64 + low6 b1) * 64 + low6 b2 in
              if cont b1 \<and> cont b2 \<and> 0x800 \<le> cp \<and> \<not> surrogate cp
              then map_option ((#) cp) (utf8_decode r) else None)
         | _ \<Rightarrow> None)
      else if n < 0xF8 then
        (case bs of
           b1 # b2 # b3 # r \<Rightarrow>
             (let cp = (((n - 0xF0) * 64 + low6 b1) * 64 + low6 b2) * 64 + low6 b3 in
              if cont b1 \<and> cont b2 \<and> cont b3 \<and> 0x10000 \<le> cp \<and> cp < 0x110000
              then map_option ((#) cp) (utf8_decode r) else None)
         | _ \<Rightarrow> None)
      else None)"

definition decode :: "bytes \<Rightarrow> exc + str" where
  "decode bs = (case utf8_decode bs of None \<Rightarrow> Inl UnicodeDecodeError | Some t \<Rightarrow> Inr t)"

text \<open>
  \<^verbatim>\<open>int(s)\<close> in base ten, as CPython 3.11 computes it. A string that is not all ASCII is
  first rewritten (\<open>to_ascii\<close>): code points below 127 stay, a Unicode space becomes a
  blank, a Unicode decimal digit its ASCII digit, anything else a question mark (CPython
  also cuts the string there; the literal is invalid either way). Then: leading
  whitespace of the C locale, one optional sign, digits with single underscores between
  them, trailing whitespace, nothing else. More than 4300 digits are refused. Every
  failure is a \<^verbatim>\<open>ValueError\<close>. \<open>decimal_zeros\<close> lists the zero of each run of ten decimal
  digits above ASCII in Unicode 14.0.
\<close>

definition decimal_zeros :: "nat list" where
  "decimal_zeros =
     [0x660, 0x6F0, 0x7C0, 0x966, 0x9E6, 0xA66, 0xAE6, 0xB66,
      0xBE6, 0xC66, 0xCE6, 0xD66, 0xDE6, 0xE50, 0xED0, 0xF20,
      0x1040, 0x1090, 0x17E0, 0x1810, 0x1946, 0x19D0, 0x1A80, 0x1A90,
      0x1B50, 0x1BB0, 0x1C40, 0x1C50, 0xA620, 0xA8D0, 0xA900, 0xA9D0,
      0xA9F0, 0xAA50, 0xABF0, 0xFF10, 0x104A0, 0x10D30, 0x11066, 0x110F0,
      0x11136, 0x111D0, 0x112F0, 0x11450, 0x114D0, 0x11650, 0x116C0, 0x11730,
      0x118E0, 0x11950, 0x11C50, 0x11D50, 0x11DA0, 0x16A60, 0x16AC0, 0x16B50,
      0x1D7CE, 0x1D7D8, 0x1D7E2, 0x1D7EC, 0x1D7F6, 0x1E140, 0x1E2F0, 0x1E950,
      0x1FBF0]"

definition todecimal :: "nat \<Rightarrow> nat option" where
  "todecimal c =
     (case filter (\<lambda>z. z \<le> c \<and> c < z + 10) decimal_zeros of
        [] \<Rightarrow> None
      | z # _ \<Rightarrow> Some (c - z))"

definition ascii_space :: "nat \<Rightarrow> bool" where
  "ascii_space c \<longleftrightarrow> (9 \<le> c \<and> c \<le> 13) \<or> c = 32"

definition to_ascii :: "nat \<Rightarrow> nat" where
  "to_ascii c =
     (if c < 127 then c
      else if isspace c then 32
      else (case todecimal c of Some d \<Rightarrow> 48 + d | None \<Rightarrow> 63))"

definition isdigit :: "nat \<Rightarrow> bool" where
  "isdigit c \<longleftrightarrow> 48 \<le> c \<and> c \<le> 57"

fun digits :: "str \<Rightarrow> nat \<Rightarrow> nat option" where
  "digits [] acc = Some acc"
| "digits [c] acc = (if isdigit c then Some (acc * 10 + (c - 48)) else None)"
| "digits (c # d # cs) acc =
     (if isdigit c then digits (d # cs) (acc * 10 + (c - 48))
      else if c = 95 \<and> isdigit d then digits cs (acc * 10 + (d - 48))
      else None)"

definition literal :: "str \<Rightarrow> nat option" where
  "literal ds =
     (case ds of
        [] \<Rightarrow> None
      | c # cs \<Rightarrow>
          if isdigit c \<and> length (filter isdigit ds) \<le> 4300 then digits cs (c - 48) else None)"

definition py_int :: "str \<Rightarrow> int option" where
  "py_int s =
     (let a = (if \<forall>c\<in>set s. c < 128 then s else map to_ascii s);
          b = dropWhile ascii_space a;
          neg = (case b of [] \<Rightarrow> False | c # _ \<Rightarrow> c = 45);
          d = (case b of [] \<Rightarrow> [] | c # r \<Rightarrow> if c = 45 \<or> c = 43 then r else b);
          ds = takeWhile (\<lambda>c. isdigit c \<or> c = 95) d;
          rest = dropWhile (\<lambda>c. isdigit c \<or> c = 95) d
      in if list_all ascii_space rest
         then map_option (\<lambda>n. if neg then - int n else int n) (literal ds)
         else None)"

text \<open>\<^verbatim>\<open>reply.endswith(marker)\<close> and the slice \<^verbatim>\<open>s[:-n]\<close> (with \<^verbatim>\<open>s[:-0] = s[:0]\<close>).\<close>

definition endswith :: "'a list \<Rightarrow> 'a list \<Rightarrow> bool" where
  "endswith reply marker \<longleftrightarrow>
     length marker \<le> length reply \<and> drop (length reply - length marker) reply = marker"

definition slice_to_neg :: "nat \<Rightarrow> 'a list \<Rightarrow> 'a list" where
  "slice_to_neg n s = (if n = 0 then [] else take (length s - n) s)"

section \<open>The socket library\<close>

text \<open>
  A socket carries what its peer will do: the outcome of each future \<^verbatim>\<open>send\<close> and
  \<^verbatim>\<open>recv\<close> system call. \<open>SendN k\<close>: the kernel accepts up to \<open>k\<close> bytes.
  \<open>RecvBytes bs\<close>: the bytes \<open>bs\<close> arrive (the empty chunk is the peer's close).
  \<open>SendStall\<close>, \<open>RecvStall\<close>: nothing happens for one timeout period. \<open>SendFail\<close>,
  \<open>RecvFail\<close>: the call fails with that errno. A script that runs out leaves the
  scenario undetermined: the operation is \<open>None\<close>. A closed socket refuses every call
  with \<open>EBADF\<close>, one that is not connected with \<open>ENOTCONN\<close> (or \<open>EPIPE\<close>, which the
  code does not tell apart).
\<close>

datatype family = AF_INET | AF_UNIX

datatype sockaddr = INET str int | UNIX str

datatype status = Unconnected | Connected | Closed

datatype send_event = SendN nat | SendStall | SendFail nat

datatype recv_event = RecvBytes bytes | RecvStall | RecvFail nat

record sock =
  family :: family
  status :: status
  peer :: "sockaddr option"
  timeout :: "nat option"
  send_events :: "send_event list"
  recv_events :: "recv_event list"
  wire :: bytes

text \<open>A connection attempt is refused with an errno, or accepted by a peer with its scripts.\<close>

datatype attempt = Refuse nat | Accept "send_event list" "recv_event list"

type_synonym network = "attempt list"

definition new_socket :: "family \<Rightarrow> sock" where
  "new_socket f = \<lparr>family = f, status = Unconnected, peer = None, timeout = None,
     send_events = [], recv_events = [], wire = []\<rparr>"

definition sock_connect :: "sockaddr \<Rightarrow> sock \<Rightarrow> network \<Rightarrow> (unit res \<times> sock \<times> network) option" where
  "sock_connect a s net =
     (if status s = Closed then Some (Raise (OSError (Errno EBADF)), s, net)
      else if (case a of INET h p \<Rightarrow> p < 0 \<or> 65535 < p | UNIX _ \<Rightarrow> False)
        then Some (Raise OverflowError, s, net)
      else (case net of
              [] \<Rightarrow> None
            | Refuse e # rest \<Rightarrow> Some (Raise (OSError (Errno e)), s, rest)
            | Accept outs ins # rest \<Rightarrow>
                Some (Return (), s\<lparr>status := Connected, peer := Some a,
                                   send_events := outs, recv_events := ins\<rparr>, rest)))"

definition sock_settimeout :: "nat option \<Rightarrow> sock \<Rightarrow> sock" where
  "sock_settimeout t s = s\<lparr>timeout := t\<rparr>"

definition sock_close :: "sock \<Rightarrow> sock" where
  "sock_close s = s\<lparr>status := Closed\<rparr>"

fun send_script :: "nat option \<Rightarrow> bytes \<Rightarrow> send_event list \<Rightarrow> (nat res \<times> send_event list) option" where
  "send_script t data [] = None"
| "send_script t data (SendN k # evs) = Some (Return (min k (length data)), evs)"
| "send_script t data (SendFail e # evs) = Some (Raise (OSError (Errno e)), evs)"
| "send_script t data (SendStall # evs) =
     (case t of None \<Rightarrow> send_script None data evs
      | Some _ \<Rightarrow> Some (Raise (OSError TimeoutError), evs))"

fun recv_script :: "nat option \<Rightarrow> nat \<Rightarrow> recv_event list \<Rightarrow> (bytes res \<times> recv_event list) option" where
  "recv_script t n [] = None"
| "recv_script t n (RecvBytes bs # evs) =
     (if length bs \<le> n then Some (Return bs, evs)
      else Some (Return (take n bs), RecvBytes (drop n bs) # evs))"
| "recv_script t n (RecvFail e # evs) = Some (Raise (OSError (Errno e)), evs)"
| "recv_script t n (RecvStall # evs) =
     (case t of None \<Rightarrow> recv_script None n evs
      | Some _ \<Rightarrow> Some (Raise (OSError TimeoutError), evs))"

definition sock_send :: "bytes \<Rightarrow> sock \<Rightarrow> (nat res \<times> sock) option" where
  "sock_send data s =
     (case status s of
        Closed \<Rightarrow> Some (Raise (OSError (Errno EBADF)), s)
      | Unconnected \<Rightarrow> Some (Raise (OSError (Errno ENOTCONN)), s)
      | Connected \<Rightarrow>
          (case send_script (timeout s) data (send_events s) of
             None \<Rightarrow> None
           | Some (Return k, evs) \<Rightarrow>
               Some (Return k, s\<lparr>send_events := evs, wire := wire s @ take k data\<rparr>)
           | Some (Raise e, evs) \<Rightarrow> Some (Raise e, s\<lparr>send_events := evs\<rparr>)))"

definition sock_recv :: "nat \<Rightarrow> sock \<Rightarrow> (bytes res \<times> sock) option" where
  "sock_recv n s =
     (case status s of
        Closed \<Rightarrow> Some (Raise (OSError (Errno EBADF)), s)
      | Unconnected \<Rightarrow> Some (Raise (OSError (Errno ENOTCONN)), s)
      | Connected \<Rightarrow>
          (case recv_script (timeout s) n (recv_events s) of
             None \<Rightarrow> None
           | Some (r, evs) \<Rightarrow> Some (r, s\<lparr>recv_events := evs\<rparr>)))"

section \<open>class Connection\<close>

definition END_MARKER :: bytes where
  "END_MARKER = [CHR 0x0D, CHR 0x0A, CHR ''E'', CHR ''N'', CHR ''D'', CHR 0x0D, CHR 0x0A]"

definition BUFSIZE :: nat where
  "BUFSIZE = 4096"

definition QUIT_CMD :: str where
  "QUIT_CMD = str_of ''quit''"

definition QUIT_MARKER :: bytes where
  "QUIT_MARKER = [CHR ''B'', CHR ''y'', CHR ''e'', CHR ''!'', CHR 0x0D, CHR 0x0A]"

record connection =
  socket_addr :: str
  socket :: "sock option"

definition init :: "str \<Rightarrow> connection" where
  "init a = \<lparr>socket_addr = a, socket = None\<rparr>"

definition colon :: nat where
  "colon = 58"

text \<open>\<^verbatim>\<open>socket_addr.split(':', 1)\<close>, used only when the address has a colon.\<close>

definition split_colon :: "str \<Rightarrow> str \<times> str" where
  "split_colon a = (takeWhile (\<lambda>c. c \<noteq> colon) a, drop 1 (dropWhile (\<lambda>c. c \<noteq> colon) a))"

text \<open>
  \<^verbatim>\<open>_connect\<close>. The socket object is stored in \<^verbatim>\<open>self.socket\<close> before \<^verbatim>\<open>int(port)\<close> and
  \<^verbatim>\<open>connect\<close> run, so it stays there when either of them raises. The timeout of 0.1 s is
  kept in milliseconds.
\<close>

definition connect :: "connection \<Rightarrow> network \<Rightarrow> (unit res \<times> connection \<times> network) option" where
  "connect c net =
     (if colon \<in> set (socket_addr c) then
        (case split_colon (socket_addr c) of (host, port) \<Rightarrow>
           (let s = new_socket AF_INET in
            case py_int port of
              None \<Rightarrow> Some (Raise ValueError, c\<lparr>socket := Some s\<rparr>, net)
            | Some p \<Rightarrow>
                (case sock_connect (INET host p) s net of
                   None \<Rightarrow> None
                 | Some (Raise e, s', net') \<Rightarrow> Some (Raise e, c\<lparr>socket := Some s'\<rparr>, net')
                 | Some (Return _, s', net') \<Rightarrow>
                     Some (Return (), c\<lparr>socket := Some (sock_settimeout (Some 100) s')\<rparr>, net'))))
      else
        (let s = new_socket AF_UNIX in
         case sock_connect (UNIX (socket_addr c)) s net of
           None \<Rightarrow> None
         | Some (Raise e, s', net') \<Rightarrow> Some (Raise e, c\<lparr>socket := Some s'\<rparr>, net')
         | Some (Return _, s', net') \<Rightarrow>
             Some (Return (), c\<lparr>socket := Some (sock_settimeout (Some 100) s')\<rparr>, net')))"


text \<open>
  The write loop of \<^verbatim>\<open>send\<close> (lines 45 to 51). A method call on \<^verbatim>\<open>self.socket\<close> when it
  is \<^verbatim>\<open>None\<close> is an \<^verbatim>\<open>AttributeError\<close>.
\<close>

function write_loop :: "bytes \<Rightarrow> nat \<Rightarrow> connection \<Rightarrow> (unit res \<times> connection) option" where
  "write_loop request total' c =
     (if total' < length request then
        (case socket c of
           None \<Rightarrow> Some (Raise AttributeError, c)
         | Some s \<Rightarrow>
             (case sock_send (drop total' request) s of
                None \<Rightarrow> None
              | Some (Raise e, s') \<Rightarrow> Some (Raise e, c\<lparr>socket := Some s'\<rparr>)
              | Some (Return sent, s') \<Rightarrow>
                  if sent = 0 then Some (Raise (OSError ConnectionLost), c\<lparr>socket := None\<rparr>)
                  else write_loop request (total' + sent) (c\<lparr>socket := Some s'\<rparr>)))
      else Some (Return (), c))"
  by pat_completeness auto
termination
  by (relation "measure (\<lambda>(request, total', c). length request - total')") auto

text \<open>The read loop of \<^verbatim>\<open>send\<close> (lines 53 to 59).\<close>

fun weight :: "recv_event list \<Rightarrow> nat" where
  "weight [] = 0"
| "weight (RecvBytes bs # evs) = Suc (length bs) + weight evs"
| "weight (e # evs) = Suc (weight evs)"

definition pending :: "connection \<Rightarrow> nat" where
  "pending c = (case socket c of None \<Rightarrow> 0 | Some s \<Rightarrow> weight (recv_events s))"

lemma recv_script_weight:
  "recv_script t n evs = Some (Return chunk, evs') \<Longrightarrow> chunk \<noteq> [] \<Longrightarrow> weight evs' < weight evs"
  by (induction t n evs rule: recv_script.induct) (auto split: if_splits option.splits)

lemma sock_recv_weight:
  "sock_recv n s = Some (Return chunk, s') \<Longrightarrow> chunk \<noteq> [] \<Longrightarrow>
     weight (recv_events s') < weight (recv_events s)"
  by (auto simp: sock_recv_def split: status.splits option.splits dest: recv_script_weight)

function read_loop :: "bytes \<Rightarrow> bytes \<Rightarrow> connection \<Rightarrow> (bytes res \<times> connection) option" where
  "read_loop marker reply c =
     (if \<not> endswith reply marker then
        (case socket c of
           None \<Rightarrow> Some (Raise AttributeError, c)
         | Some s \<Rightarrow>
             (case sock_recv BUFSIZE s of
                None \<Rightarrow> None
              | Some (Raise e, s') \<Rightarrow> Some (Raise e, c\<lparr>socket := Some s'\<rparr>)
              | Some (Return chunk, s') \<Rightarrow>
                  if chunk = [] then Some (Raise (OSError ConnectionLost), c\<lparr>socket := None\<rparr>)
                  else read_loop marker (reply @ chunk) (c\<lparr>socket := Some s'\<rparr>)))
      else Some (Return reply, c))"
  by pat_completeness auto
termination
  by (relation "measure (\<lambda>(marker, reply, c). pending c)")
     (auto simp: pending_def dest: sock_recv_weight)

declare write_loop.simps [simp del] read_loop.simps [simp del]

text \<open>Lines 53 to 60: read up to the marker, decode, cut the marker off.\<close>

definition read_reply :: "bytes \<Rightarrow> connection \<Rightarrow> (str res \<times> connection) option" where
  "read_reply marker c =
     (case read_loop marker [] c of
        None \<Rightarrow> None
      | Some (Raise e, c') \<Rightarrow> Some (Raise e, c')
      | Some (Return reply, c') \<Rightarrow>
          (case decode reply of
             Inl e \<Rightarrow> Some (Raise e, c')
           | Inr t \<Rightarrow> Some (Return (slice_to_neg (length marker) t), c')))"

text \<open>\<^verbatim>\<open>b'%s\n' % command.strip().encode()\<close>\<close>

definition request_of :: "str \<Rightarrow> exc + bytes" where
  "request_of command =
     (case encode (strip command) of Inl e \<Rightarrow> Inl e | Inr b \<Rightarrow> Inr (b @ [CHR 0x0A]))"

definition send :: "str \<Rightarrow> bytes \<Rightarrow> connection \<Rightarrow> network \<Rightarrow> (str res \<times> connection \<times> network) option" where
  "send command marker c net =
     (case (if socket c = None then connect c net else Some (Return (), c, net)) of
        None \<Rightarrow> None
      | Some (Raise e, c1, net1) \<Rightarrow> Some (Raise e, c1, net1)
      | Some (Return _, c1, net1) \<Rightarrow>
          (case request_of command of
             Inl e \<Rightarrow> Some (Raise e, c1, net1)
           | Inr request \<Rightarrow>
               (case write_loop request 0 c1 of
                  None \<Rightarrow> None
                | Some (Raise e, c2) \<Rightarrow> Some (Raise e, c2, net1)
                | Some (Return _, c2) \<Rightarrow>
                    (case read_reply marker c2 of
                       None \<Rightarrow> None
                     | Some (r, c3) \<Rightarrow> Some (r, c3, net1)))))"

text \<open>
  \<^verbatim>\<open>__exit__\<close>: \<^verbatim>\<open>except OSError: pass\<close> swallows the three kinds of \<^verbatim>\<open>OSError\<close> and lets
  any other exception through; \<^verbatim>\<open>self.socket.close()\<close> then runs on whatever
  \<^verbatim>\<open>self.socket\<close> is by now.
\<close>

definition exit :: "connection \<Rightarrow> network \<Rightarrow> (unit res \<times> connection \<times> network) option" where
  "exit c net =
     (if socket c \<noteq> None then
        (case send QUIT_CMD QUIT_MARKER c net of
           None \<Rightarrow> None
         | Some (r, c1, net1) \<Rightarrow>
             (case r of
                Raise (OSError _) \<Rightarrow>
                  (case socket c1 of
                     None \<Rightarrow> Some (Raise AttributeError, c1, net1)
                   | Some s \<Rightarrow> Some (Return (), c1\<lparr>socket := Some (sock_close s)\<rparr>, net1))
              | Raise e \<Rightarrow> Some (Raise e, c1, net1)
              | Return _ \<Rightarrow>
                  (case socket c1 of
                     None \<Rightarrow> Some (Raise AttributeError, c1, net1)
                   | Some s \<Rightarrow> Some (Return (), c1\<lparr>socket := Some (sock_close s)\<rparr>, net1))))
      else Some (Return (), c, net))"

section \<open>class Console\<close>

text \<open>\<^verbatim>\<open>Console._send\<close>: one more \<^verbatim>\<open>send\<close> of the same line after any \<^verbatim>\<open>OSError\<close>.\<close>

definition console_send :: "str \<Rightarrow> connection \<Rightarrow> network \<Rightarrow> (str res \<times> connection \<times> network) option" where
  "console_send line c net =
     (case send line END_MARKER c net of
        None \<Rightarrow> None
      | Some (Raise (OSError _), c1, net1) \<Rightarrow> send line END_MARKER c1 net1
      | Some (r, c1, net1) \<Rightarrow> Some (r, c1, net1))"

section \<open>Scenarios\<close>

text \<open>
  The reply on the wire carries the terminator at its end only: no proper prefix of it
  ends with the terminator. A piece of a reply holds no terminator at all when no prefix
  of it does.
\<close>

definition terminator_at_end_only :: "bytes \<Rightarrow> bytes \<Rightarrow> bool" where
  "terminator_at_end_only marker reply \<longleftrightarrow>
     (\<forall>p\<in>set (butlast (prefixes reply)). \<not> endswith p marker)"

definition terminator_absent :: "bytes \<Rightarrow> bytes \<Rightarrow> bool" where
  "terminator_absent marker data \<longleftrightarrow> (\<forall>p\<in>set (prefixes data). \<not> endswith p marker)"

text \<open>A write that the transport accepts in part or whole: at least one byte goes out.\<close>

fun partial_write :: "send_event \<Rightarrow> bool" where
  "partial_write (SendN k) = (0 < k)"
| "partial_write _ = False"

text \<open>
  The \<^verbatim>\<open>OSError\<close> that a call raises when it meets the event, on a socket with a timeout:
  a stall is the timeout, a failure its errno; a transfer raises nothing.
\<close>

fun send_raises :: "send_event \<Rightarrow> oserror option" where
  "send_raises (SendN k) = None"
| "send_raises SendStall = Some TimeoutError"
| "send_raises (SendFail n) = Some (Errno n)"

fun recv_raises :: "recv_event \<Rightarrow> oserror option" where
  "recv_raises (RecvBytes bs) = None"
| "recv_raises RecvStall = Some TimeoutError"
| "recv_raises (RecvFail n) = Some (Errno n)"

text \<open>The transport is closed: there is no handle, or the handle's socket has been closed.\<close>

definition is_closed :: "connection \<Rightarrow> bool" where
  "is_closed c \<longleftrightarrow> (case socket c of None \<Rightarrow> True | Some s \<Rightarrow> status s = Closed)"

text \<open>
  A connection to \<^verbatim>\<open>localhost:1234\<close> as \<^verbatim>\<open>_connect\<close> leaves it, whose peer will act as the
  two scripts say.
\<close>

definition established :: "send_event list \<Rightarrow> recv_event list \<Rightarrow> sock" where
  "established outs ins =
     \<lparr>family = AF_INET, status = Connected, peer = Some (INET (str_of ''localhost'') 1234),
      timeout = Some 100, send_events = outs, recv_events = ins, wire = []\<rparr>"

definition live :: "send_event list \<Rightarrow> recv_event list \<Rightarrow> connection" where
  "live outs ins = \<lparr>socket_addr = str_of ''localhost:1234'', socket = Some (established outs ins)\<rparr>"

section \<open>Bytes, prefixes and the two loops\<close>

lemmas int_simps = py_int_def literal_def ascii_space_def isdigit_def Let_def

lemma endswith_suffix: "endswith xs m \<longleftrightarrow> suffix m xs"
  unfolding endswith_def
  by (metis append_take_drop_id diff_diff_cancel length_drop suffixI suffix_drop suffix_length_le suffix_order.eq_iff suffix_take suffixE append_eq_conv_conj length_append add_diff_cancel_right' le_add2)

lemma set_butlast_prefixes: "p \<in> set (butlast (prefixes xs)) \<longleftrightarrow> strict_prefix p xs"
  by (induction xs rule: rev_induct) (auto simp: strict_prefix_def)

lemma utf8_decode_append:
  "utf8_decode xs = Some t \<Longrightarrow> utf8_decode ys = Some u \<Longrightarrow> utf8_decode (xs @ ys) = Some (t @ u)"
  by (induction xs arbitrary: t rule: utf8_decode.induct)
     (auto simp: Let_def split: if_splits list.splits)

lemma utf8_decode_ascii:
  "\<forall>b\<in>set m. (of_char b :: nat) < 128 \<Longrightarrow> utf8_decode m = Some (map of_char m)"
  by (induction m) auto


lemma conn_socket_same: "socket c = Some s \<Longrightarrow> c\<lparr>socket := Some s\<rparr> = c"
  by (cases c) simp

lemma sock_send_SendN:
  "status s = Connected \<Longrightarrow> send_events s = SendN k # evs \<Longrightarrow>
     sock_send data s = Some (Return (min k (length data)), s\<lparr>send_events := evs, wire := wire s @ take k data\<rparr>)"
  by (simp add: sock_send_def min_def)

lemma write_loop_chunks:
  "socket c = Some s \<Longrightarrow> status s = Connected \<Longrightarrow> send_events s = map SendN ks @ outs \<Longrightarrow>
   \<forall>k\<in>set ks. 0 < k \<Longrightarrow> n + sum_list ks \<le> length request \<Longrightarrow>
   write_loop request n c =
     write_loop request (n + sum_list ks)
       (c\<lparr>socket := Some (s\<lparr>send_events := outs, wire := wire s @ take (sum_list ks) (drop n request)\<rparr>)\<rparr>)"
proof (induction ks arbitrary: n s c)
  case Nil
  then show ?case by (simp add: conn_socket_same)
next
  case (Cons k ks)
  let ?s' = "s\<lparr>send_events := map SendN ks @ outs, wire := wire s @ take k (drop n request)\<rparr>"
  let ?c' = "c\<lparr>socket := Some ?s'\<rparr>"
  from Cons.prems have k: "0 < k" "n + k \<le> length request" "n < length request" by auto
  have step: "sock_send (drop n request) s = Some (Return k, ?s')"
    using Cons.prems k by (simp add: sock_send_SendN min_def)
  have "write_loop request n c = write_loop request (n + k) ?c'"
    using k step Cons.prems(1) by (subst write_loop.simps) simp
  also have "\<dots> = write_loop request (n + k + sum_list ks)
       (?c'\<lparr>socket := Some (?s'\<lparr>send_events := outs, wire := wire ?s' @ take (sum_list ks) (drop (n + k) request)\<rparr>)\<rparr>)"
    using Cons.prems by (intro Cons.IH) auto
  also have "wire ?s' @ take (sum_list ks) (drop (n + k) request)
      = wire s @ take (k + sum_list ks) (drop n request)"
    by (simp add: take_add add.commute)
  finally show ?case by (simp add: add.assoc)
qed


lemma write_loop_done: "length request \<le> n \<Longrightarrow> write_loop request n c = Some (Return (), c)"
  by (subst write_loop.simps) simp

lemma write_loop_exact:
  assumes "socket c = Some s" "status s = Connected" "send_events s = map SendN ks @ outs"
    and "\<forall>k\<in>set ks. 0 < k" "sum_list ks = length request"
  shows "write_loop request 0 c =
     Some (Return (), c\<lparr>socket := Some (s\<lparr>send_events := outs, wire := wire s @ request\<rparr>)\<rparr>)"
  using write_loop_chunks [OF assms(1-4), of 0 request] assms(5)
  by (simp add: write_loop_done)

lemma sock_recv_RecvBytes:
  "status s = Connected \<Longrightarrow> recv_events s = RecvBytes ch # evs \<Longrightarrow>
     sock_recv n s =
       (if length ch \<le> n then Some (Return ch, s\<lparr>recv_events := evs\<rparr>)
        else Some (Return (take n ch), s\<lparr>recv_events := RecvBytes (drop n ch) # evs\<rparr>))"
  by (simp add: sock_recv_def)

lemma read_loop_chunks:
  "socket c = Some s \<Longrightarrow> status s = Connected \<Longrightarrow> recv_events s = map RecvBytes chunks @ evs \<Longrightarrow>
   \<forall>ch\<in>set chunks. ch \<noteq> [] \<Longrightarrow>
   \<forall>p. strict_prefix p (concat chunks) \<longrightarrow> \<not> endswith (reply @ p) marker \<Longrightarrow>
   read_loop marker reply c =
     read_loop marker (reply @ concat chunks) (c\<lparr>socket := Some (s\<lparr>recv_events := evs\<rparr>)\<rparr>)"
proof (induction "length (concat chunks)" arbitrary: chunks reply s c rule: less_induct)
  case less
  show ?case
  proof (cases chunks)
    case Nil
    with less.prems show ?thesis by (simp add: conn_socket_same)
  next
    case (Cons ch chs)
    with less.prems have ne: "ch \<noteq> []" by simp
    then have "strict_prefix [] (concat chunks)" using Cons by (cases ch) auto
    with less.prems have go: "\<not> endswith reply marker" by force
    have ev: "recv_events s = RecvBytes ch # map RecvBytes chs @ evs"
      using less.prems Cons by simp
    show ?thesis
    proof (cases "length ch \<le> BUFSIZE")
      case True
      let ?s' = "s\<lparr>recv_events := map RecvBytes chs @ evs\<rparr>"
      let ?c' = "c\<lparr>socket := Some ?s'\<rparr>"
      have step: "sock_recv BUFSIZE s = Some (Return ch, ?s')"
        using sock_recv_RecvBytes [OF less.prems(2) ev] True by simp
      have "read_loop marker reply c = read_loop marker (reply @ ch) ?c'"
        using go step ne less.prems(1) by (subst read_loop.simps) simp
      also have "\<dots> = read_loop marker ((reply @ ch) @ concat chs)
          (?c'\<lparr>socket := Some (?s'\<lparr>recv_events := evs\<rparr>)\<rparr>)"
      proof (rule less.hyps)
        show "length (concat chs) < length (concat chunks)" using Cons ne by simp
        show "\<forall>p. strict_prefix p (concat chs) \<longrightarrow> \<not> endswith ((reply @ ch) @ p) marker"
        proof (intro allI impI)
          fix p assume "strict_prefix p (concat chs)"
          then have "strict_prefix (ch @ p) (concat chunks)" using Cons by (simp add: strict_prefix_def)
          with less.prems(5) show "\<not> endswith ((reply @ ch) @ p) marker" by force
        qed
      qed (use less.prems Cons in auto)
      finally show ?thesis using Cons by simp
    next
      case False
      let ?hd = "take BUFSIZE ch" and ?tl = "drop BUFSIZE ch"
      let ?s' = "s\<lparr>recv_events := RecvBytes ?tl # map RecvBytes chs @ evs\<rparr>"
      let ?c' = "c\<lparr>socket := Some ?s'\<rparr>"
      have hdne: "?hd \<noteq> []" using ne by (simp add: BUFSIZE_def)
      have tlne: "?tl \<noteq> []" using False by simp
      have step: "sock_recv BUFSIZE s = Some (Return ?hd, ?s')"
        using sock_recv_RecvBytes [OF less.prems(2) ev] False by simp
      have cc: "concat chunks = ?hd @ concat (?tl # chs)" using Cons by simp
      have "read_loop marker reply c = read_loop marker (reply @ ?hd) ?c'"
        using go step hdne less.prems(1) by (subst read_loop.simps) simp
      also have "\<dots> = read_loop marker ((reply @ ?hd) @ concat (?tl # chs))
          (?c'\<lparr>socket := Some (?s'\<lparr>recv_events := evs\<rparr>)\<rparr>)"
      proof (rule less.hyps)
        have "length ?hd > 0" using hdne by simp
        then show "length (concat (?tl # chs)) < length (concat chunks)"
          by (subst cc) (simp del: append_take_drop_id)
        show "\<forall>p. strict_prefix p (concat (?tl # chs)) \<longrightarrow> \<not> endswith ((reply @ ?hd) @ p) marker"
        proof (intro allI impI)
          fix p assume "strict_prefix p (concat (?tl # chs))"
          then have "strict_prefix (?hd @ p) (concat chunks)"
            by (subst cc) (simp add: strict_prefix_def del: append_take_drop_id)
          with less.prems(5) show "\<not> endswith ((reply @ ?hd) @ p) marker" by force
        qed
        show "recv_events ?s' = map RecvBytes (?tl # chs) @ evs" by simp
        show "\<forall>ch\<in>set (?tl # chs). ch \<noteq> []" using tlne less.prems(4) Cons by simp
      qed (use less.prems in auto)
      finally show ?thesis using cc by simp
    qed
  qed
qed


lemma terminator_at_end_only_iff:
  "terminator_at_end_only marker reply \<longleftrightarrow> (\<forall>p. strict_prefix p reply \<longrightarrow> \<not> endswith p marker)"
  by (simp add: terminator_at_end_only_def set_butlast_prefixes Ball_def)

lemma terminator_absent_iff:
  "terminator_absent marker data \<longleftrightarrow> (\<forall>p. prefix p data \<longrightarrow> \<not> endswith p marker)"
  by (simp add: terminator_absent_def Ball_def)

lemma read_loop_done: "endswith reply marker \<Longrightarrow> read_loop marker reply c = Some (Return reply, c)"
  by (subst read_loop.simps) simp

lemma read_loop_reply:
  assumes "socket c = Some s" "status s = Connected" "recv_events s = map RecvBytes chunks @ ins"
    and "\<forall>ch\<in>set chunks. ch \<noteq> []" "concat chunks = body @ marker"
    and "terminator_at_end_only marker (body @ marker)"
  shows "read_loop marker [] c =
     Some (Return (body @ marker), c\<lparr>socket := Some (s\<lparr>recv_events := ins\<rparr>)\<rparr>)"
proof -
  have "\<forall>p. strict_prefix p (concat chunks) \<longrightarrow> \<not> endswith ([] @ p) marker"
    using assms(5,6) by (simp add: terminator_at_end_only_iff)
  from read_loop_chunks [OF assms(1-4) this]
  have "read_loop marker [] c =
      read_loop marker (body @ marker) (c\<lparr>socket := Some (s\<lparr>recv_events := ins\<rparr>)\<rparr>)"
    using assms(5) by simp
  moreover have "endswith (body @ marker) marker" by (simp add: endswith_def)
  ultimately show ?thesis by (simp add: read_loop_done)
qed

lemma slice_marker:
  assumes "terminator_at_end_only marker (body @ marker)" "utf8_decode body = Some t"
  shows "slice_to_neg (length marker) (t @ map of_char marker) = t"
proof (cases "marker = []")
  case True
  have "body = []"
  proof (rule ccontr)
    assume "body \<noteq> []"
    then have "strict_prefix [] (body @ marker)" by (cases body) auto
    with assms(1) have "\<not> endswith [] marker" by (simp add: terminator_at_end_only_iff)
    with True show False by (simp add: endswith_def)
  qed
  with assms(2) True show ?thesis by (simp add: slice_to_neg_def)
next
  case False
  then show ?thesis by (simp add: slice_to_neg_def)
qed

lemma read_reply_text:
  assumes "socket c = Some s" "status s = Connected" "recv_events s = map RecvBytes chunks @ ins"
    and "\<forall>ch\<in>set chunks. ch \<noteq> []" "concat chunks = body @ marker"
    and "terminator_at_end_only marker (body @ marker)"
    and "\<forall>b\<in>set marker. (of_char b :: nat) < 128" "utf8_decode body = Some t"
  shows "read_reply marker c = Some (Return t, c\<lparr>socket := Some (s\<lparr>recv_events := ins\<rparr>)\<rparr>)"
proof -
  have "utf8_decode (body @ marker) = Some (t @ map of_char marker)"
    using assms(7,8) by (simp add: utf8_decode_append utf8_decode_ascii)
  then show ?thesis
    using read_loop_reply [OF assms(1-6)] slice_marker [OF assms(6,8)]
    by (simp add: read_reply_def decode_def)
qed

section \<open>The exchange\<close>

text \<open>
  Claim C1, as the code has it. On a connected socket that takes the whole request, let
  the peer's reply \<open>body @ marker\<close> arrive cut into non-empty chunks in any way, also with
  the cut inside the terminator, and let no proper prefix of the reply end with the
  terminator. Then \<open>send\<close> reads exactly these chunks and returns the decoded \<open>body\<close>, the
  terminator cut off. (A chunk longer than \<open>BUFSIZE\<close> is read in several calls.)
\<close>

theorem send_returns_reply_text:
  assumes "socket c = Some s" and "status s = Connected"
    and "request_of command = Inr request"
    and "send_events s = map SendN ks @ outs" and "\<forall>k\<in>set ks. 0 < k"
    and "sum_list ks = length request"
    and "recv_events s = map RecvBytes chunks @ ins" and "\<forall>ch\<in>set chunks. ch \<noteq> []"
    and "concat chunks = body @ marker"
    and "terminator_at_end_only marker (body @ marker)"
    and "\<forall>b\<in>set marker. (of_char b :: nat) < 128"
    and "utf8_decode body = Some t"
  shows "send command marker c net =
     Some (Return t,
           c\<lparr>socket := Some (s\<lparr>send_events := outs, recv_events := ins, wire := wire s @ request\<rparr>)\<rparr>,
           net)"
proof -
  let ?s1 = "s\<lparr>send_events := outs, wire := wire s @ request\<rparr>"
  let ?c1 = "c\<lparr>socket := Some ?s1\<rparr>"
  have w: "write_loop request 0 c = Some (Return (), ?c1)"
    using assms(1,2,4,5,6) by (rule write_loop_exact)
  have r: "read_reply marker ?c1 = Some (Return t, ?c1\<lparr>socket := Some (?s1\<lparr>recv_events := ins\<rparr>)\<rparr>)"
    using assms(2,7-12) by (intro read_reply_text) auto
  show ?thesis using assms(1,3) w r by (simp add: send_def)
qed

theorem send_returns_reply_text_witness:
  "send (str_of ''version'') END_MARKER
     (live [SendN 3, SendN 5] [RecvBytes (''Liquidsoap 2.2.0'' @ [CHR 0x0D, CHR 0x0A, CHR ''E'']), RecvBytes [CHR ''N'', CHR ''D'', CHR 0x0D, CHR 0x0A]]) [] =
   Some (Return (str_of ''Liquidsoap 2.2.0''),
         live [] [] \<lparr>socket := Some ((established [] []) \<lparr>wire := ''version'' @ [CHR 0x0A]\<rparr>)\<rparr>, [])"
  using send_returns_reply_text [of
      "live [SendN 3, SendN 5] [RecvBytes (''Liquidsoap 2.2.0'' @ [CHR 0x0D, CHR 0x0A, CHR ''E'']), RecvBytes [CHR ''N'', CHR ''D'', CHR 0x0D, CHR 0x0A]]"
      "established [SendN 3, SendN 5] [RecvBytes (''Liquidsoap 2.2.0'' @ [CHR 0x0D, CHR 0x0A, CHR ''E'']), RecvBytes [CHR ''N'', CHR ''D'', CHR 0x0D, CHR 0x0A]]"
      "str_of ''version''" "''version'' @ [CHR 0x0A]" "[3, 5]" "[]"
      "[''Liquidsoap 2.2.0'' @ [CHR 0x0D, CHR 0x0A, CHR ''E''], [CHR ''N'', CHR ''D'', CHR 0x0D, CHR 0x0A]]" "[]"
      "''Liquidsoap 2.2.0''" END_MARKER "str_of ''Liquidsoap 2.2.0''" "[]"]
  by (simp add: live_def established_def str_of_def END_MARKER_def request_of_def strip_def
      isspace_def encode_cp_def terminator_at_end_only_def endswith_def char_of_eq_iff)

section \<open>Timeouts and lost connections\<close>

lemma sock_recv_stall:
  "status s = Connected \<Longrightarrow> timeout s = Some t \<Longrightarrow> recv_events s = RecvStall # evs \<Longrightarrow>
     sock_recv n s = Some (Raise (OSError TimeoutError), s\<lparr>recv_events := evs\<rparr>)"
  by (simp add: sock_recv_def)

lemma sock_recv_eof:
  "status s = Connected \<Longrightarrow> recv_events s = RecvBytes [] # evs \<Longrightarrow>
     sock_recv n s = Some (Return [], s\<lparr>recv_events := evs\<rparr>)"
  by (simp add: sock_recv_def)

lemma read_loop_absent:
  assumes "socket c = Some s" "status s = Connected" "recv_events s = map RecvBytes chunks @ evs"
    and "\<forall>ch\<in>set chunks. ch \<noteq> []" "terminator_absent marker (concat chunks)"
  shows "read_loop marker [] c =
     read_loop marker (concat chunks) (c\<lparr>socket := Some (s\<lparr>recv_events := evs\<rparr>)\<rparr>)"
    and "\<not> endswith (concat chunks) marker"
proof -
  have "\<forall>p. strict_prefix p (concat chunks) \<longrightarrow> \<not> endswith ([] @ p) marker"
    using assms(5) by (simp add: terminator_absent_iff strict_prefix_def)
  from read_loop_chunks [OF assms(1-4) this]
  show "read_loop marker [] c =
     read_loop marker (concat chunks) (c\<lparr>socket := Some (s\<lparr>recv_events := evs\<rparr>)\<rparr>)" by simp
  show "\<not> endswith (concat chunks) marker"
    using assms(5) by (simp add: terminator_absent_iff)
qed

lemma read_loop_timeout:
  assumes "socket c = Some s" "status s = Connected" "timeout s = Some tmo"
    and "recv_events s = map RecvBytes chunks @ RecvStall # ins"
    and "\<forall>ch\<in>set chunks. ch \<noteq> []" "terminator_absent marker (concat chunks)"
  shows "read_loop marker [] c =
     Some (Raise (OSError TimeoutError), c\<lparr>socket := Some (s\<lparr>recv_events := ins\<rparr>)\<rparr>)"
proof -
  let ?s' = "s\<lparr>recv_events := RecvStall # ins\<rparr>"
  have "sock_recv BUFSIZE ?s' = Some (Raise (OSError TimeoutError), ?s'\<lparr>recv_events := ins\<rparr>)"
    using assms(2,3) by (intro sock_recv_stall) auto
  then have "read_loop marker (concat chunks) (c\<lparr>socket := Some ?s'\<rparr>) =
      Some (Raise (OSError TimeoutError), c\<lparr>socket := Some (s\<lparr>recv_events := ins\<rparr>)\<rparr>)"
    using read_loop_absent(2) [OF assms(1,2,4,5,6)] by (subst read_loop.simps) simp
  with read_loop_absent(1) [OF assms(1,2,4,5,6)] show ?thesis by simp
qed

lemma read_loop_eof:
  assumes "socket c = Some s" "status s = Connected"
    and "recv_events s = map RecvBytes chunks @ RecvBytes [] # ins"
    and "\<forall>ch\<in>set chunks. ch \<noteq> []" "terminator_absent marker (concat chunks)"
  shows "read_loop marker [] c = Some (Raise (OSError ConnectionLost), c\<lparr>socket := None\<rparr>)"
proof -
  let ?s' = "s\<lparr>recv_events := RecvBytes [] # ins\<rparr>"
  have "sock_recv BUFSIZE ?s' = Some (Return [], ?s'\<lparr>recv_events := ins\<rparr>)"
    using assms(2) by (intro sock_recv_eof) auto
  then have "read_loop marker (concat chunks) (c\<lparr>socket := Some ?s'\<rparr>) =
      Some (Raise (OSError ConnectionLost), c\<lparr>socket := None\<rparr>)"
    using read_loop_absent(2) [OF assms(1,2,3,4,5)] by (subst read_loop.simps) simp
  with read_loop_absent(1) [OF assms(1,2,3,4,5)] show ?thesis by simp
qed

lemma write_loop_zero:
  assumes "socket c = Some s" "status s = Connected"
    and "send_events s = map SendN ks @ SendN 0 # outs"
    and "\<forall>k\<in>set ks. 0 < k" "sum_list ks < length request"
  shows "write_loop request 0 c = Some (Raise (OSError ConnectionLost), c\<lparr>socket := None\<rparr>)"
proof -
  let ?s' = "s\<lparr>send_events := SendN 0 # outs, wire := wire s @ take (sum_list ks) (drop 0 request)\<rparr>"
  have "write_loop request 0 c = write_loop request (0 + sum_list ks) (c\<lparr>socket := Some ?s'\<rparr>)"
    using assms by (intro write_loop_chunks) auto
  moreover have "sock_send (drop (sum_list ks) request) ?s' =
      Some (Return (min 0 (length (drop (sum_list ks) request))),
            ?s'\<lparr>send_events := outs, wire := wire ?s' @ take 0 (drop (sum_list ks) request)\<rparr>)"
    using assms(2) by (intro sock_send_SendN) auto
  ultimately show ?thesis
    using assms(5) by (subst (asm) (2) write_loop.simps) simp
qed

lemma send_connected:
  "socket c = Some s \<Longrightarrow> request_of command = Inr request \<Longrightarrow>
   send command marker c net =
     (case write_loop request 0 c of
        None \<Rightarrow> None
      | Some (Raise e, c2) \<Rightarrow> Some (Raise e, c2, net)
      | Some (Return _, c2) \<Rightarrow>
          (case read_reply marker c2 of None \<Rightarrow> None | Some (r, c3) \<Rightarrow> Some (r, c3, net)))"
  by (simp add: send_def)

text \<open>
  Claim C2, as the code has it. \<open>send\<close> does not retry a read that times out: when the
  peer stalls for one timeout period before the terminator has arrived, the timeout raised
  by \<^verbatim>\<open>recv\<close> leaves \<open>send\<close> as an \<^verbatim>\<open>OSError\<close>, the bytes read so far are dropped, the
  rest of the reply stays unread and the socket handle stays in place.
\<close>

theorem send_timeout_propagates:
  assumes "socket c = Some s" and "status s = Connected" and "timeout s = Some tmo"
    and "request_of command = Inr request"
    and "send_events s = map SendN ks @ outs" and "\<forall>k\<in>set ks. 0 < k"
    and "sum_list ks = length request"
    and "recv_events s = map RecvBytes chunks @ RecvStall # ins" and "\<forall>ch\<in>set chunks. ch \<noteq> []"
    and "terminator_absent marker (concat chunks)"
  shows "send command marker c net =
     Some (Raise (OSError TimeoutError),
           c\<lparr>socket := Some (s\<lparr>send_events := outs, recv_events := ins, wire := wire s @ request\<rparr>)\<rparr>,
           net)"
proof -
  let ?s1 = "s\<lparr>send_events := outs, wire := wire s @ request\<rparr>"
  let ?c1 = "c\<lparr>socket := Some ?s1\<rparr>"
  have w: "write_loop request 0 c = Some (Return (), ?c1)"
    using assms(1,2,5,6,7) by (rule write_loop_exact)
  have "read_loop marker [] ?c1 =
      Some (Raise (OSError TimeoutError), ?c1\<lparr>socket := Some (?s1\<lparr>recv_events := ins\<rparr>)\<rparr>)"
    using assms(2,3,8,9,10) by (intro read_loop_timeout [where tmo = tmo]) auto
  then have r: "read_reply marker ?c1 =
      Some (Raise (OSError TimeoutError), ?c1\<lparr>socket := Some (?s1\<lparr>recv_events := ins\<rparr>)\<rparr>)"
    by (simp add: read_reply_def)
  show ?thesis using w r by (simp add: send_connected [OF assms(1,4)])
qed

lemmas eval_simps = live_def established_def str_of_def END_MARKER_def QUIT_MARKER_def QUIT_CMD_def
  request_of_def strip_def isspace_def encode_cp_def endswith_def char_of_eq_iff

theorem send_timeout_propagates_witness:
  "send (str_of ''version'') END_MARKER
     (live [SendN 8] [RecvBytes ''Liquidsoap 2.2.0'', RecvStall, RecvBytes END_MARKER]) [] =
   Some (Raise (OSError TimeoutError),
         live [] [] \<lparr>socket := Some ((established [] [RecvBytes END_MARKER]) \<lparr>wire := ''version'' @ [CHR 0x0A]\<rparr>)\<rparr>, [])"
  using send_timeout_propagates [of
      "live [SendN 8] [RecvBytes ''Liquidsoap 2.2.0'', RecvStall, RecvBytes END_MARKER]"
      "established [SendN 8] [RecvBytes ''Liquidsoap 2.2.0'', RecvStall, RecvBytes END_MARKER]"
      100 "str_of ''version''" "''version'' @ [CHR 0x0A]" "[8]" "[]"
      "[''Liquidsoap 2.2.0'']" "[RecvBytes END_MARKER]" END_MARKER "[]"]
  by (simp add: eval_simps terminator_absent_def)

text \<open>
  The claim C2 as stated fails: the same exchange returns the reply when the peer does not
  stall, and raises the timeout when it stalls once between two chunks.
\<close>

theorem timeout_fails_exchange:
  "send (str_of ''version'') END_MARKER
     (live [SendN 8] [RecvBytes ''Liquidsoap 2.2.0'', RecvStall, RecvBytes END_MARKER]) [] =
   Some (Raise (OSError TimeoutError),
         live [] [] \<lparr>socket := Some ((established [] [RecvBytes END_MARKER]) \<lparr>wire := ''version'' @ [CHR 0x0A]\<rparr>)\<rparr>, [])
   \<and> send (str_of ''version'') END_MARKER
     (live [SendN 8] [RecvBytes ''Liquidsoap 2.2.0'', RecvBytes END_MARKER]) [] =
   Some (Return (str_of ''Liquidsoap 2.2.0''),
         live [] [] \<lparr>socket := Some ((established [] []) \<lparr>wire := ''version'' @ [CHR 0x0A]\<rparr>)\<rparr>, [])"
  by (simp add: eval_simps send_def write_loop.simps read_loop.simps read_reply_def sock_send_def
      sock_recv_def BUFSIZE_def decode_def slice_to_neg_def)

text \<open>
  The claim C1 as stated fails: the body \<^verbatim>\<open>a\r\nEND\<close> holds no terminator, yet with the
  terminator that follows it the reply has one that ends two bytes into the real one. When
  a chunk ends there, the loop stops: \<open>send\<close> returns \<^verbatim>\<open>a\<close> and leaves \<^verbatim>\<open>END\r\n\<close> unread.
\<close>

theorem send_early_terminator_match:
  "terminator_absent END_MARKER [CHR ''a'', CHR 0x0D, CHR 0x0A, CHR ''E'', CHR ''N'', CHR ''D'']
   \<and> concat [[CHR ''a'', CHR 0x0D, CHR 0x0A, CHR ''E'', CHR ''N'', CHR ''D'', CHR 0x0D, CHR 0x0A],
               [CHR ''E'', CHR ''N'', CHR ''D'', CHR 0x0D, CHR 0x0A]] =
       [CHR ''a'', CHR 0x0D, CHR 0x0A, CHR ''E'', CHR ''N'', CHR ''D''] @ END_MARKER
   \<and> decode [CHR ''a'', CHR 0x0D, CHR 0x0A, CHR ''E'', CHR ''N'', CHR ''D''] = Inr [97, 13, 10, 69, 78, 68]
   \<and> send (str_of ''version'') END_MARKER
       (live [SendN 8]
          [RecvBytes [CHR ''a'', CHR 0x0D, CHR 0x0A, CHR ''E'', CHR ''N'', CHR ''D'', CHR 0x0D, CHR 0x0A],
           RecvBytes [CHR ''E'', CHR ''N'', CHR ''D'', CHR 0x0D, CHR 0x0A]]) [] =
     Some (Return [97],
       live [] [] \<lparr>socket := Some ((established [] [RecvBytes [CHR ''E'', CHR ''N'', CHR ''D'', CHR 0x0D, CHR 0x0A]])
          \<lparr>wire := ''version'' @ [CHR 0x0A]\<rparr>)\<rparr>, [])"
  by (simp add: eval_simps terminator_absent_def send_def write_loop.simps read_loop.simps
      read_reply_def sock_send_def sock_recv_def BUFSIZE_def decode_def slice_to_neg_def)

text \<open>
  Claim C3 at a failing input: the peer has closed, so the read of the quit exchange
  returns no bytes. \<open>send\<close> drops the handle and raises; \<^verbatim>\<open>__exit__\<close> swallows that and
  then calls \<^verbatim>\<open>close\<close> on \<^verbatim>\<open>None\<close>.
\<close>

theorem exit_raises_after_connection_lost:
  "exit (live [SendN 5] [RecvBytes []]) [] =
     Some (Raise AttributeError, \<lparr>socket_addr = str_of ''localhost:1234'', socket = None\<rparr>, [])"
  by (simp add: eval_simps exit_def send_def write_loop.simps read_loop.simps read_reply_def
      sock_send_def sock_recv_def BUFSIZE_def)


text \<open>
  Claim C4. A write that reports zero bytes before the request is out, and a read that
  returns zero bytes before the terminator has arrived, each make \<open>send\<close> drop the socket
  handle and raise the one error \<open>ConnectionLost\<close>.
\<close>

theorem send_zero_bytes_connection_lost:
  assumes "socket c = Some s" and "status s = Connected" and "request_of command = Inr request"
  shows "(send_events s = map SendN ks @ SendN 0 # outs \<and> (\<forall>k\<in>set ks. 0 < k) \<and>
            sum_list ks < length request \<longrightarrow>
          send command marker c net =
            Some (Raise (OSError ConnectionLost), c\<lparr>socket := None\<rparr>, net)) \<and>
         (send_events s = map SendN ks @ outs \<and> (\<forall>k\<in>set ks. 0 < k) \<and>
            sum_list ks = length request \<and>
            recv_events s = map RecvBytes chunks @ RecvBytes [] # ins \<and>
            (\<forall>ch\<in>set chunks. ch \<noteq> []) \<and> terminator_absent marker (concat chunks) \<longrightarrow>
          send command marker c net =
            Some (Raise (OSError ConnectionLost), c\<lparr>socket := None\<rparr>, net))"
proof (intro conjI impI)
  assume a: "send_events s = map SendN ks @ SendN 0 # outs \<and> (\<forall>k\<in>set ks. 0 < k) \<and>
            sum_list ks < length request"
  then have "write_loop request 0 c = Some (Raise (OSError ConnectionLost), c\<lparr>socket := None\<rparr>)"
    using assms(1,2) by (intro write_loop_zero) auto
  then show "send command marker c net =
      Some (Raise (OSError ConnectionLost), c\<lparr>socket := None\<rparr>, net)"
    by (simp add: send_connected [OF assms(1,3)])
next
  assume a: "send_events s = map SendN ks @ outs \<and> (\<forall>k\<in>set ks. 0 < k) \<and>
            sum_list ks = length request \<and>
            recv_events s = map RecvBytes chunks @ RecvBytes [] # ins \<and>
            (\<forall>ch\<in>set chunks. ch \<noteq> []) \<and> terminator_absent marker (concat chunks)"
  let ?s1 = "s\<lparr>send_events := outs, wire := wire s @ request\<rparr>"
  let ?c1 = "c\<lparr>socket := Some ?s1\<rparr>"
  have w: "write_loop request 0 c = Some (Return (), ?c1)"
    using assms(1,2) a by (intro write_loop_exact) auto
  have "read_loop marker [] ?c1 = Some (Raise (OSError ConnectionLost), ?c1\<lparr>socket := None\<rparr>)"
    using assms(2) a by (intro read_loop_eof [where s = ?s1 and chunks = chunks and ins = ins]) auto
  then have "read_reply marker ?c1 = Some (Raise (OSError ConnectionLost), c\<lparr>socket := None\<rparr>)"
    by (simp add: read_reply_def)
  with w show "send command marker c net =
      Some (Raise (OSError ConnectionLost), c\<lparr>socket := None\<rparr>, net)"
    by (simp add: send_connected [OF assms(1,3)])
qed

theorem send_zero_bytes_connection_lost_witness:
  "send (str_of ''version'') END_MARKER (live [SendN 3, SendN 0] []) [] =
     Some (Raise (OSError ConnectionLost), \<lparr>socket_addr = str_of ''localhost:1234'', socket = None\<rparr>, [])
   \<and> send (str_of ''version'') END_MARKER (live [SendN 8] [RecvBytes ''Liquid'', RecvBytes []]) [] =
     Some (Raise (OSError ConnectionLost), \<lparr>socket_addr = str_of ''localhost:1234'', socket = None\<rparr>, [])"
  using send_zero_bytes_connection_lost [where c = "live [SendN 3, SendN 0] []"
      and s = "established [SendN 3, SendN 0] []" and command = "str_of ''version''"
      and request = "''version'' @ [CHR 0x0A]" and ks = "[3]" and outs = "[]"
      and marker = END_MARKER and net = "[]" and chunks = "[]" and ins = "[]"]
    send_zero_bytes_connection_lost [where c = "live [SendN 8] [RecvBytes ''Liquid'', RecvBytes []]"
      and s = "established [SendN 8] [RecvBytes ''Liquid'', RecvBytes []]"
      and command = "str_of ''version''" and request = "''version'' @ [CHR 0x0A]"
      and ks = "[8]" and outs = "[]" and marker = END_MARKER and net = "[]"
      and chunks = "[''Liquid'']" and ins = "[]"]
  by (simp add: eval_simps terminator_absent_def)

section \<open>Choice of the transport\<close>

lemma split_colon_join:
  "colon \<in> set a \<Longrightarrow>
     a = fst (split_colon a) @ colon # snd (split_colon a) \<and> colon \<notin> set (fst (split_colon a))"
proof -
  assume "colon \<in> set a"
  then have "dropWhile (\<lambda>c. c \<noteq> colon) a \<noteq> []" by (simp add: dropWhile_eq_Nil_conv)
  then obtain y ys where d: "dropWhile (\<lambda>c. c \<noteq> colon) a = y # ys" by (cases "dropWhile (\<lambda>c. c \<noteq> colon) a") auto
  then have "y = colon" using hd_dropWhile [of "\<lambda>c. c \<noteq> colon" a] by force
  moreover have "a = takeWhile (\<lambda>c. c \<noteq> colon) a @ dropWhile (\<lambda>c. c \<noteq> colon) a" by simp
  moreover have "colon \<notin> set (takeWhile (\<lambda>c. c \<noteq> colon) a)" by (auto dest: set_takeWhileD)
  ultimately show ?thesis using d by (simp add: split_colon_def)
qed

text \<open>
  Claim C5. Whatever \<^verbatim>\<open>_connect\<close> does, it leaves a socket in \<^verbatim>\<open>self.socket\<close>: an
  \<open>AF_INET\<close> one when the address has a colon, connected (when the call returns) to the host
  before the first colon and the port after it; an \<open>AF_UNIX\<close> one otherwise, connected to the
  address as a path.
\<close>

theorem connect_selects_transport:
  assumes "connect c net = Some (r, c', net')"
  shows "\<exists>s. socket c' = Some s \<and>
     (if colon \<in> set (socket_addr c) then
        family s = AF_INET \<and>
        (\<exists>host port. socket_addr c = host @ colon # port \<and> colon \<notin> set host \<and>
           (r = Return () \<longrightarrow> (\<exists>p. py_int port = Some p \<and> peer s = Some (INET host p))))
      else family s = AF_UNIX \<and> (r = Return () \<longrightarrow> peer s = Some (UNIX (socket_addr c))))"
proof (cases "colon \<in> set (socket_addr c)")
  case True
  obtain host port where hp: "split_colon (socket_addr c) = (host, port)" by force
  with split_colon_join [OF True] have j: "socket_addr c = host @ colon # port" "colon \<notin> set host"
    by auto
  from assms True hp obtain s where s: "socket c' = Some s" "family s = AF_INET"
      "r = Return () \<longrightarrow> (\<exists>p. py_int port = Some p \<and> peer s = Some (INET host p))"
    by (auto simp: connect_def sock_connect_def new_socket_def sock_settimeout_def Let_def
        split: option.splits if_splits list.splits attempt.splits)
  have "family s = AF_INET \<and>
        (\<exists>host port. socket_addr c = host @ colon # port \<and> colon \<notin> set host \<and>
           (r = Return () \<longrightarrow> (\<exists>p. py_int port = Some p \<and> peer s = Some (INET host p))))"
    using s(2,3) j by (intro conjI exI [of _ host] exI [of _ port]) auto
  with s(1) True show ?thesis by simp
next
  case False
  from assms False obtain s where s: "socket c' = Some s" "family s = AF_UNIX"
      "r = Return () \<longrightarrow> peer s = Some (UNIX (socket_addr c))"
    by (auto simp: connect_def sock_connect_def new_socket_def sock_settimeout_def Let_def
        split: option.splits if_splits list.splits attempt.splits)
  with False show ?thesis by auto
qed

theorem connect_selects_transport_witness:
  "connect (init (str_of ''/tmp/ls.sock'')) [Accept [] []] =
     Some (Return (),
       init (str_of ''/tmp/ls.sock'')
         \<lparr>socket := Some (established [] [] \<lparr>family := AF_UNIX, peer := Some (UNIX (str_of ''/tmp/ls.sock''))\<rparr>)\<rparr>,
       [])
   \<and> connect (init (str_of ''localhost:1234'')) [Accept [] []] = Some (Return (), live [] [], [])
   \<and> (\<exists>s. socket (live [] []) = Some s \<and> family s = AF_INET \<and>
         peer s = Some (INET (str_of ''localhost'') 1234))"
proof -
  have u: "connect (init (str_of ''/tmp/ls.sock'')) [Accept [] []] =
     Some (Return (),
       init (str_of ''/tmp/ls.sock'')
         \<lparr>socket := Some (established [] [] \<lparr>family := AF_UNIX, peer := Some (UNIX (str_of ''/tmp/ls.sock''))\<rparr>)\<rparr>,
       [])"
    by (simp add: connect_def init_def str_of_def colon_def sock_connect_def new_socket_def
        sock_settimeout_def established_def)
  have t: "connect (init (str_of ''localhost:1234'')) [Accept [] []] = Some (Return (), live [] [], [])"
    by (simp add: connect_def init_def str_of_def colon_def sock_connect_def new_socket_def
        sock_settimeout_def established_def live_def split_colon_def int_simps)
  from connect_selects_transport [OF u] connect_selects_transport [OF t]
  have "\<exists>s. socket (live [] []) = Some s \<and> family s = AF_INET \<and>
         peer s = Some (INET (str_of ''localhost'') 1234)"
    by (simp add: live_def established_def)
  with u t show ?thesis by simp
qed

section \<open>The socket handle after send\<close>

lemma send_script_not_lost:
  "send_script t d evs = Some (Raise e, evs') \<Longrightarrow> e \<noteq> OSError ConnectionLost"
  by (induction t d evs rule: send_script.induct) (auto split: option.splits)

lemma recv_script_not_lost:
  "recv_script t n evs = Some (Raise e, evs') \<Longrightarrow> e \<noteq> OSError ConnectionLost"
  by (induction t n evs rule: recv_script.induct) (auto split: option.splits if_splits)

lemma sock_send_not_lost:
  "sock_send d s = Some (Raise e, s') \<Longrightarrow> e \<noteq> OSError ConnectionLost"
  by (auto simp: sock_send_def split: status.splits option.splits res.splits
      dest: send_script_not_lost)

lemma sock_recv_not_lost:
  "sock_recv n s = Some (Raise e, s') \<Longrightarrow> e \<noteq> OSError ConnectionLost"
  by (auto simp: sock_recv_def split: status.splits option.splits dest: recv_script_not_lost)

lemma write_loop_socket:
  "socket c \<noteq> None \<Longrightarrow> write_loop request n c = Some (r, c') \<Longrightarrow>
     (socket c' = None \<longleftrightarrow> r = Raise (OSError ConnectionLost))"
proof (induction request n c rule: write_loop.induct)
  case (1 request n c)
  from "1.prems"(1) obtain s where s: "socket c = Some s" by auto
  show ?case
  proof (cases "n < length request")
    case False
    with "1.prems" show ?thesis by (auto simp: write_loop.simps [of request n c])
  next
    case True
    show ?thesis
    proof (cases "sock_send (drop n request) s")
      case None
      with "1.prems" True s show ?thesis by (simp add: write_loop.simps [of request n c])
    next
      case (Some a)
      then obtain q s' where a: "sock_send (drop n request) s = Some (q, s')" by (cases a) auto
      show ?thesis
      proof (cases q)
        case (Raise e)
        with a "1.prems" True s sock_send_not_lost [of "drop n request" s e s'] show ?thesis
          by (auto simp: write_loop.simps [of request n c])
      next
        case (Return sent)
        show ?thesis
        proof (cases "sent = 0")
          case True
          with Return a "1.prems" \<open>n < length request\<close> s show ?thesis
            by (auto simp: write_loop.simps [of request n c])
        next
          case False
          with Return a "1.prems" \<open>n < length request\<close> s
          have "write_loop request (n + sent) (c\<lparr>socket := Some s'\<rparr>) = Some (r, c')"
            by (simp add: write_loop.simps [of request n c])
          with "1.IH" [OF \<open>n < length request\<close> s a refl Return False] show ?thesis
            by simp
        qed
      qed
    qed
  qed
qed

lemma read_loop_socket:
  "socket c \<noteq> None \<Longrightarrow> read_loop marker reply c = Some (r, c') \<Longrightarrow>
     (socket c' = None \<longleftrightarrow> r = Raise (OSError ConnectionLost))"
proof (induction marker reply c rule: read_loop.induct)
  case (1 marker reply c)
  from "1.prems"(1) obtain s where s: "socket c = Some s" by auto
  show ?case
  proof (cases "endswith reply marker")
    case True
    with "1.prems" show ?thesis by (auto simp: read_loop.simps [of marker reply c])
  next
    case False
    show ?thesis
    proof (cases "sock_recv BUFSIZE s")
      case None
      with "1.prems" False s show ?thesis by (simp add: read_loop.simps [of marker reply c])
    next
      case (Some a)
      then obtain q s' where a: "sock_recv BUFSIZE s = Some (q, s')" by (cases a) auto
      show ?thesis
      proof (cases q)
        case (Raise e)
        with a "1.prems" False s sock_recv_not_lost [of BUFSIZE s e s'] show ?thesis
          by (auto simp: read_loop.simps [of marker reply c])
      next
        case (Return chunk)
        show ?thesis
        proof (cases "chunk = []")
          case True
          with Return a "1.prems" False s show ?thesis
            by (auto simp: read_loop.simps [of marker reply c])
        next
          case ne: False
          with Return a "1.prems" False s
          have "read_loop marker (reply @ chunk) (c\<lparr>socket := Some s'\<rparr>) = Some (r, c')"
            by (simp add: read_loop.simps [of marker reply c])
          with "1.IH" [OF False s a refl Return ne] show ?thesis
            by simp
        qed
      qed
    qed
  qed
qed

lemma read_reply_socket:
  assumes "socket c \<noteq> None" "read_reply marker c = Some (r, c')"
  shows "socket c' = None \<longleftrightarrow> r = Raise (OSError ConnectionLost)"
proof -
  from assms(2) obtain q c1 where q: "read_loop marker [] c = Some (q, c1)"
    by (cases "read_loop marker [] c") (auto simp: read_reply_def)
  note rs = read_loop_socket [OF assms(1) q]
  show ?thesis
    using assms(2) q rs
    by (cases q) (auto simp: read_reply_def decode_def split: option.splits)
qed

lemma encode_error: "encode t = Inl e \<Longrightarrow> e = UnicodeEncodeError"
  by (induction t) (auto split: option.splits sum.splits)

lemma connect_result:
  "connect c net = Some (r, c', net') \<Longrightarrow>
     socket c' \<noteq> None \<and> r \<noteq> Raise (OSError ConnectionLost) \<and> (net' = net \<or> net' = tl net)"
  by (auto simp: connect_def sock_connect_def Let_def
      split: option.splits if_splits list.splits attempt.splits prod.splits)

lemma send_socket:
  assumes "send command marker c net = Some (r, c', net')"
  shows "socket c' = None \<longleftrightarrow> r = Raise (OSError ConnectionLost)"
proof -
  define pre where "pre = (if socket c = None then connect c net else Some (Return (), c, net))"
  from assms obtain q c1 net1 where pre: "pre = Some (q, c1, net1)"
    by (cases pre) (auto simp: send_def pre_def)
  have c1: "socket c1 \<noteq> None" "q \<noteq> Raise (OSError ConnectionLost)"
    using pre connect_result [of c net q c1 net1] by (auto simp: pre_def split: if_splits)
  show ?thesis
  proof (cases q)
    case (Raise e)
    with assms pre c1 show ?thesis by (auto simp: send_def pre_def [symmetric])
  next
    case (Return u)
    show ?thesis
    proof (cases "request_of command")
      case (Inl e)
      with assms pre c1 Return show ?thesis
        by (auto simp: send_def pre_def [symmetric] request_of_def split: sum.splits
            dest: encode_error)
    next
      case (Inr request)
      show ?thesis
      proof (cases "write_loop request 0 c1")
        case None
        with assms pre Return Inr show ?thesis by (simp add: send_def pre_def [symmetric])
      next
        case (Some a)
        then obtain w c2 where w: "write_loop request 0 c1 = Some (w, c2)" by (cases a) auto
        note ws = write_loop_socket [OF c1(1) w]
        show ?thesis
        proof (cases w)
          case (Raise e)
          with assms pre Return Inr w ws show ?thesis
            by (auto simp: send_def pre_def [symmetric])
        next
          case r2: (Return u2)
          with ws have "socket c2 \<noteq> None" by simp
          from read_reply_socket [OF this] assms pre Return Inr w r2 show ?thesis
            by (auto simp: send_def pre_def [symmetric] split: option.splits)
        qed
      qed
    qed
  qed
qed

lemma send_net_connected:
  "socket c \<noteq> None \<Longrightarrow> send command marker c net = Some (r, c', net') \<Longrightarrow> net' = net"
  by (auto simp: send_def split: option.splits res.splits sum.splits)

lemma send_net:
  assumes "send command marker c net = Some (r, c', net')"
  shows "net' = net \<or> net' = tl net"
proof (cases "socket c = None")
  case False
  from send_net_connected [OF this assms] show ?thesis by simp
next
  case True
  with assms obtain q c1 net1 where q: "connect c net = Some (q, c1, net1)"
    by (cases "connect c net") (auto simp: send_def)
  with assms True have "net' = net1"
    by (auto simp: send_def split: option.splits res.splits sum.splits)
  with connect_result [OF q] show ?thesis by simp
qed

lemma send_after_connect:
  "socket c = None \<Longrightarrow> connect c net = Some (Return (), c2, net2) \<Longrightarrow>
     send command marker c net = send command marker c2 net2"
  by (frule connect_result) (auto simp: send_def split: option.splits res.splits sum.splits)

lemma send_connect_fails:
  "socket c = None \<Longrightarrow> connect c net = Some (Raise e, c2, net2) \<Longrightarrow>
     send command marker c net = Some (Raise e, c2, net2)"
  by (simp add: send_def)


lemmas run_simps = eval_simps
  send_def write_loop.simps read_loop.simps read_reply_def sock_send_def sock_recv_def
  BUFSIZE_def decode_def slice_to_neg_def connect_def sock_connect_def new_socket_def
  sock_settimeout_def sock_close_def colon_def split_colon_def int_simps init_def
  EBADF_def ENOTCONN_def

text \<open>
  Claim C6. \<^verbatim>\<open>Console._send\<close> returns what the first \<open>send\<close> returns. When the first
  \<open>send\<close> loses the connection, the handle is gone and \<^verbatim>\<open>Console._send\<close> is one more \<open>send\<close> of
  the same line from the state the first one left: that \<open>send\<close> starts with \<^verbatim>\<open>_connect\<close>, and
  whatever it raises is what the caller gets. The first \<open>send\<close> itself has made at most one
  connection attempt.
\<close>

theorem console_send_retries_once:
  "(send line END_MARKER c net = Some (Return t, c1, net1) \<longrightarrow>
      console_send line c net = Some (Return t, c1, net1)) \<and>
   (send line END_MARKER c net = Some (Raise (OSError ConnectionLost), c1, net1) \<longrightarrow>
      socket c1 = None \<and> (net1 = net \<or> net1 = tl net) \<and>
      console_send line c net = send line END_MARKER c1 net1 \<and>
      (\<forall>e c2 net2. connect c1 net1 = Some (Raise e, c2, net2) \<longrightarrow>
         console_send line c net = Some (Raise e, c2, net2)) \<and>
      (\<forall>c2 net2. connect c1 net1 = Some (Return (), c2, net2) \<longrightarrow>
         console_send line c net = send line END_MARKER c2 net2) \<and>
      (\<forall>e c2 net2. send line END_MARKER c1 net1 = Some (Raise e, c2, net2) \<longrightarrow>
         console_send line c net = Some (Raise e, c2, net2)))"
proof (intro conjI impI)
  assume "send line END_MARKER c net = Some (Return t, c1, net1)"
  then show "console_send line c net = Some (Return t, c1, net1)"
    by (simp add: console_send_def)
next
  assume a: "send line END_MARKER c net = Some (Raise (OSError ConnectionLost), c1, net1)"
  from send_socket [OF a] show none: "socket c1 = None" by simp
  from send_net [OF a] show "net1 = net \<or> net1 = tl net" .
  from a show retry: "console_send line c net = send line END_MARKER c1 net1"
    by (simp add: console_send_def)
  show "\<forall>e c2 net2. connect c1 net1 = Some (Raise e, c2, net2) \<longrightarrow>
         console_send line c net = Some (Raise e, c2, net2)"
    using retry none by (simp add: send_connect_fails)
  show "\<forall>c2 net2. connect c1 net1 = Some (Return (), c2, net2) \<longrightarrow>
         console_send line c net = send line END_MARKER c2 net2"
    using retry none by (auto dest: send_after_connect)
  show "\<forall>e c2 net2. send line END_MARKER c1 net1 = Some (Raise e, c2, net2) \<longrightarrow>
         console_send line c net = Some (Raise e, c2, net2)"
    using retry by simp
qed

theorem console_send_retries_once_witness:
  "send (str_of ''help'') END_MARKER (live [SendN 0] []) [Accept [SendN 5] [RecvBytes (''ok'' @ END_MARKER)]] =
     Some (Raise (OSError ConnectionLost), \<lparr>socket_addr = str_of ''localhost:1234'', socket = None\<rparr>,
           [Accept [SendN 5] [RecvBytes (''ok'' @ END_MARKER)]])
   \<and> console_send (str_of ''help'') (live [SendN 0] []) [Accept [SendN 5] [RecvBytes (''ok'' @ END_MARKER)]] =
     Some (Return (str_of ''ok''),
           live [] [] \<lparr>socket := Some ((established [] []) \<lparr>wire := ''help'' @ [CHR 0x0A]\<rparr>)\<rparr>, [])"
proof -
  have first: "send (str_of ''help'') END_MARKER (live [SendN 0] []) [Accept [SendN 5] [RecvBytes (''ok'' @ END_MARKER)]] =
     Some (Raise (OSError ConnectionLost), \<lparr>socket_addr = str_of ''localhost:1234'', socket = None\<rparr>,
           [Accept [SendN 5] [RecvBytes (''ok'' @ END_MARKER)]])"
    by (simp add: run_simps)
  have second: "send (str_of ''help'') END_MARKER \<lparr>socket_addr = str_of ''localhost:1234'', socket = None\<rparr>
           [Accept [SendN 5] [RecvBytes (''ok'' @ END_MARKER)]] =
     Some (Return (str_of ''ok''),
           live [] [] \<lparr>socket := Some ((established [] []) \<lparr>wire := ''help'' @ [CHR 0x0A]\<rparr>)\<rparr>, [])"
    by (simp add: run_simps)
  from console_send_retries_once [of "str_of ''help''" "live [SendN 0] []"
      "[Accept [SendN 5] [RecvBytes (''ok'' @ END_MARKER)]]" "[]"
      "\<lparr>socket_addr = str_of ''localhost:1234'', socket = None\<rparr>"
      "[Accept [SendN 5] [RecvBytes (''ok'' @ END_MARKER)]]"] first second
  show ?thesis by simp
qed




section \<open>Shutdown\<close>

lemma request_of_quit: "request_of QUIT_CMD = Inr (''quit'' @ [CHR 0x0A])"
  by (simp add: request_of_def QUIT_CMD_def str_of_def strip_def isspace_def encode_cp_def
      char_of_eq_iff)

lemma sock_close_closed: "status s = Closed \<Longrightarrow> sock_close s = s"
  by (cases s) (simp add: sock_close_def)

lemma send_on_closed:
  assumes "socket c = Some s" "status s = Closed" "request_of command = Inr request"
  shows "send command marker c net = Some (Raise (OSError (Errno EBADF)), c, net)"
proof -
  have "request \<noteq> []" using assms(3) by (auto simp: request_of_def split: sum.splits)
  then have "write_loop request 0 c = Some (Raise (OSError (Errno EBADF)), c)"
    using assms(1,2) by (subst write_loop.simps) (simp add: sock_send_def conn_socket_same)
  then show ?thesis by (simp add: send_connected [OF assms(1,3)])
qed

lemma exit_closed: "is_closed c \<Longrightarrow> exit c net = Some (Return (), c, net)"
proof (cases "socket c")
  case None
  then show ?thesis by (simp add: exit_def)
next
  case (Some s)
  assume "is_closed c"
  with Some have st: "status s = Closed" by (simp add: is_closed_def)
  show ?thesis
    using Some send_on_closed [OF Some st request_of_quit]
    by (simp add: exit_def sock_close_closed [OF st] conn_socket_same)
qed

lemma exit_after_lost_quit:
  assumes "socket c \<noteq> None"
    and "send QUIT_CMD QUIT_MARKER c net = Some (Raise (OSError ConnectionLost), c1, net1)"
  shows "exit c net = Some (Raise AttributeError, c1, net1)"
  using assms send_socket [OF assms(2)] by (simp add: exit_def)

lemma exit_returns_closed: "exit c net = Some (Return (), c', net') \<Longrightarrow> is_closed c'"
  by (auto simp: exit_def is_closed_def sock_close_def
      split: if_splits option.splits res.splits exc.splits)

text \<open>
  Claim C8. \<^verbatim>\<open>__exit__\<close> on a closed connection returns and changes nothing; and an
  \<^verbatim>\<open>__exit__\<close> that returns leaves the connection closed, so that one more \<^verbatim>\<open>__exit__\<close> returns
  and changes nothing. (A closed socket refuses the quit request with \<open>EBADF\<close> before a byte is
  written, which \<^verbatim>\<open>__exit__\<close> swallows.)
\<close>

theorem close_idempotent:
  "(is_closed c \<longrightarrow> exit c net = Some (Return (), c, net)) \<and>
   (exit c net = Some (Return (), c', net') \<longrightarrow>
      is_closed c' \<and> exit c' net' = Some (Return (), c', net'))"
  using exit_closed exit_returns_closed by blast

theorem close_idempotent_witness:
  "exit (live [SendN 5] [RecvBytes QUIT_MARKER]) [] =
     Some (Return (),
       live [] [] \<lparr>socket := Some ((established [] []) \<lparr>status := Closed, wire := ''quit'' @ [CHR 0x0A]\<rparr>)\<rparr>, [])
   \<and> exit (live [] [] \<lparr>socket := Some ((established [] []) \<lparr>status := Closed, wire := ''quit'' @ [CHR 0x0A]\<rparr>)\<rparr>) [] =
     Some (Return (),
       live [] [] \<lparr>socket := Some ((established [] []) \<lparr>status := Closed, wire := ''quit'' @ [CHR 0x0A]\<rparr>)\<rparr>, [])
   \<and> is_closed (init (str_of ''localhost:1234''))
   \<and> exit (init (str_of ''localhost:1234'')) [] = Some (Return (), init (str_of ''localhost:1234''), [])"
proof -
  have first: "exit (live [SendN 5] [RecvBytes QUIT_MARKER]) [] =
     Some (Return (),
       live [] [] \<lparr>socket := Some ((established [] []) \<lparr>status := Closed, wire := ''quit'' @ [CHR 0x0A]\<rparr>)\<rparr>, [])"
    by (simp add: run_simps exit_def)
  have cl: "is_closed (init (str_of ''localhost:1234''))" by (simp add: is_closed_def init_def)
  from close_idempotent [of "live [SendN 5] [RecvBytes QUIT_MARKER]" "[]"
      "live [] [] \<lparr>socket := Some ((established [] []) \<lparr>status := Closed, wire := ''quit'' @ [CHR 0x0A]\<rparr>)\<rparr>" "[]"]
    close_idempotent [of "init (str_of ''localhost:1234'')" "[]"] first cl
  show ?thesis by simp
qed

section \<open>Partial writes\<close>

lemma write_loop_positive:
  "socket c = Some s \<Longrightarrow> status s = Connected \<Longrightarrow> list_all partial_write (send_events s) \<Longrightarrow>
   length request - n \<le> length (send_events s) \<Longrightarrow> n \<le> length request \<Longrightarrow>
   \<exists>m. write_loop request n c =
     Some (Return (), c\<lparr>socket := Some (s\<lparr>send_events := drop m (send_events s),
                                           wire := wire s @ drop n request\<rparr>)\<rparr>)"
proof (induction "length request - n" arbitrary: n s c rule: less_induct)
  case less
  show ?case
  proof (cases "n < length request")
    case False
    with less.prems have "write_loop request n c = Some (Return (), c)"
      by (simp add: write_loop_done)
    moreover have "c\<lparr>socket := Some (s\<lparr>send_events := drop 0 (send_events s),
        wire := wire s @ drop n request\<rparr>)\<rparr> = c"
      using less.prems False by (simp add: conn_socket_same)
    ultimately show ?thesis by metis
  next
    case True
    with less.prems obtain ev evs where ev: "send_events s = ev # evs"
      by (cases "send_events s") auto
    with less.prems obtain k where k: "ev = SendN k" "0 < k"
      by (cases ev) auto
    let ?sent = "min k (length request - n)"
    let ?s' = "s\<lparr>send_events := evs, wire := wire s @ take k (drop n request)\<rparr>"
    let ?c' = "c\<lparr>socket := Some ?s'\<rparr>"
    have pos: "0 < ?sent" using k True by simp
    then have nz: "?sent \<noteq> 0" by simp
    have step: "sock_send (drop n request) s = Some (Return ?sent, ?s')"
      using less.prems(2) ev k by (simp add: sock_send_SendN)
    have w: "write_loop request n c = write_loop request (n + ?sent) ?c'"
      using True less.prems(1) by (subst write_loop.simps) (simp add: step nz)
    have "\<exists>m. write_loop request (n + ?sent) ?c' =
        Some (Return (), ?c'\<lparr>socket := Some (?s'\<lparr>send_events := drop m (send_events ?s'),
             wire := wire ?s' @ drop (n + ?sent) request\<rparr>)\<rparr>)"
    proof (rule less.hyps)
      show "length request - (n + ?sent) < length request - n" using pos True by simp
      show "list_all partial_write (send_events ?s')" using less.prems(3) ev by simp
      show "length request - (n + ?sent) \<le> length (send_events ?s')"
        using less.prems(4) ev k True by (auto simp: min_def)
      show "n + ?sent \<le> length request" using True by simp
    qed (use less.prems in auto)
    then obtain m where m: "write_loop request (n + ?sent) ?c' =
        Some (Return (), ?c'\<lparr>socket := Some (?s'\<lparr>send_events := drop m (send_events ?s'),
             wire := wire ?s' @ drop (n + ?sent) request\<rparr>)\<rparr>)" ..
    have "take k (drop n request) @ drop (n + ?sent) request = drop n request"
    proof -
      have "drop (n + ?sent) request = drop ?sent (drop n request)" by (simp add: add.commute)
      moreover have "take k (drop n request) = take ?sent (drop n request)" by (simp add: min_def)
      ultimately show ?thesis by (simp only: append_take_drop_id)
    qed
    then have "wire ?s' @ drop (n + ?sent) request = wire s @ drop n request" by simp
    with m w ev have "write_loop request n c =
        Some (Return (), c\<lparr>socket := Some (s\<lparr>send_events := drop (Suc m) (send_events s),
             wire := wire s @ drop n request\<rparr>)\<rparr>)" by simp
    then show ?thesis ..
  qed
qed

text \<open>
  Claim C9. On a connected socket whose every write takes at least one byte (and with as
  many writes scripted as the request has bytes), the write loop ends with the whole
  request on the wire and nothing read; \<open>send\<close> is then the reading of the reply from that
  state.
\<close>

theorem send_delivers_full_request:
  assumes "socket c = Some s" and "status s = Connected" and "request_of command = Inr request"
    and "list_all partial_write (send_events s)" and "length request \<le> length (send_events s)"
  shows "\<exists>s'. write_loop request 0 c = Some (Return (), c\<lparr>socket := Some s'\<rparr>) \<and>
      wire s' = wire s @ request \<and> recv_events s' = recv_events s \<and>
      send command marker c net =
        (case read_reply marker (c\<lparr>socket := Some s'\<rparr>) of
           None \<Rightarrow> None
         | Some (r, c3) \<Rightarrow> Some (r, c3, net))"
proof -
  from write_loop_positive [OF assms(1,2,4), of request 0] assms(5)
  obtain m where m: "write_loop request 0 c =
      Some (Return (), c\<lparr>socket := Some (s\<lparr>send_events := drop m (send_events s),
                                            wire := wire s @ request\<rparr>)\<rparr>)" by auto
  let ?s' = "s\<lparr>send_events := drop m (send_events s), wire := wire s @ request\<rparr>"
  have "send command marker c net =
        (case read_reply marker (c\<lparr>socket := Some ?s'\<rparr>) of
           None \<Rightarrow> None
         | Some (r, c3) \<Rightarrow> Some (r, c3, net))"
    using m by (simp add: send_connected [OF assms(1,3)])
  with m show ?thesis by (intro exI [of _ ?s']) simp
qed

theorem send_delivers_full_request_witness:
  "\<exists>s'. write_loop (''version'' @ [CHR 0x0A]) 0
         (live [SendN 1, SendN 2, SendN 9, SendN 1, SendN 1, SendN 1, SendN 1, SendN 1] [RecvBytes END_MARKER]) =
       Some (Return (),
         live [SendN 1, SendN 2, SendN 9, SendN 1, SendN 1, SendN 1, SendN 1, SendN 1] [RecvBytes END_MARKER]
           \<lparr>socket := Some s'\<rparr>) \<and>
     wire s' = [] @ ''version'' @ [CHR 0x0A] \<and> recv_events s' = [RecvBytes END_MARKER]"
proof -
  let ?outs = "[SendN 1, SendN 2, SendN 9, SendN 1, SendN 1, SendN 1, SendN 1, SendN 1]"
  have s: "socket (live ?outs [RecvBytes END_MARKER]) = Some (established ?outs [RecvBytes END_MARKER])"
    by (simp add: live_def)
  have st: "status (established ?outs [RecvBytes END_MARKER]) = Connected"
    by (simp add: established_def)
  have rq: "request_of (str_of ''version'') = Inr (''version'' @ [CHR 0x0A])"
    by (simp add: str_of_def request_of_def strip_def isspace_def encode_cp_def char_of_eq_iff)
  have pw: "list_all partial_write (send_events (established ?outs [RecvBytes END_MARKER]))"
    by (simp add: established_def)
  have ln: "length (''version'' @ [CHR 0x0A]) \<le> length (send_events (established ?outs [RecvBytes END_MARKER]))"
    by (simp add: established_def)
  have w: "wire (established ?outs [RecvBytes END_MARKER]) = []"
    and r: "recv_events (established ?outs [RecvBytes END_MARKER]) = [RecvBytes END_MARKER]"
    by (simp_all add: established_def)
  from send_delivers_full_request [OF s st rq pw ln, of END_MARKER "[]"]
  show ?thesis unfolding w r by blast
qed

section \<open>Exceptions of the socket calls\<close>

lemma sock_send_raises:
  "status s = Connected \<Longrightarrow> timeout s = Some t \<Longrightarrow> send_events s = ev # evs \<Longrightarrow>
   send_raises ev = Some e \<Longrightarrow>
     sock_send d s = Some (Raise (OSError e), s\<lparr>send_events := evs\<rparr>)"
  by (cases ev) (auto simp: sock_send_def)

lemma sock_recv_raises:
  "status s = Connected \<Longrightarrow> timeout s = Some t \<Longrightarrow> recv_events s = ev # evs \<Longrightarrow>
   recv_raises ev = Some e \<Longrightarrow>
     sock_recv n s = Some (Raise (OSError e), s\<lparr>recv_events := evs\<rparr>)"
  by (cases ev) (auto simp: sock_recv_def)

lemma write_loop_raises:
  assumes "socket c = Some s" "status s = Connected" "timeout s = Some tmo"
    and "send_events s = map SendN ks @ ev # outs"
    and "\<forall>k\<in>set ks. 0 < k" "sum_list ks < length request" "send_raises ev = Some e"
  shows "write_loop request 0 c =
     Some (Raise (OSError e),
           c\<lparr>socket := Some (s\<lparr>send_events := outs, wire := wire s @ take (sum_list ks) request\<rparr>)\<rparr>)"
proof -
  let ?s' = "s\<lparr>send_events := ev # outs, wire := wire s @ take (sum_list ks) (drop 0 request)\<rparr>"
  have "write_loop request 0 c = write_loop request (0 + sum_list ks) (c\<lparr>socket := Some ?s'\<rparr>)"
    using assms by (intro write_loop_chunks) auto
  moreover have "sock_send (drop (sum_list ks) request) ?s' =
      Some (Raise (OSError e), ?s'\<lparr>send_events := outs\<rparr>)"
    using assms(2,3,7) by (intro sock_send_raises [where t = tmo]) auto
  ultimately show ?thesis
    using assms(6) by (subst (asm) (2) write_loop.simps) simp
qed

lemma read_loop_raises:
  assumes "socket c = Some s" "status s = Connected" "timeout s = Some tmo"
    and "recv_events s = map RecvBytes chunks @ ev # ins"
    and "\<forall>ch\<in>set chunks. ch \<noteq> []" "terminator_absent marker (concat chunks)"
    and "recv_raises ev = Some e"
  shows "read_loop marker [] c =
     Some (Raise (OSError e), c\<lparr>socket := Some (s\<lparr>recv_events := ins\<rparr>)\<rparr>)"
proof -
  let ?s' = "s\<lparr>recv_events := ev # ins\<rparr>"
  have "sock_recv BUFSIZE ?s' = Some (Raise (OSError e), ?s'\<lparr>recv_events := ins\<rparr>)"
    using assms(2,3,7) by (intro sock_recv_raises [where t = tmo]) auto
  then have "read_loop marker (concat chunks) (c\<lparr>socket := Some ?s'\<rparr>) =
      Some (Raise (OSError e), c\<lparr>socket := Some (s\<lparr>recv_events := ins\<rparr>)\<rparr>)"
    using read_loop_absent(2) [OF assms(1,2,4,5,6)] by (subst read_loop.simps) simp
  with read_loop_absent(1) [OF assms(1,2,4,5,6)] show ?thesis by simp
qed

text \<open>
  Claim C10. When a write raises (a stall of one timeout period, or an errno) before the
  request is out, or a read raises before the terminator has arrived, \<open>send\<close> raises that
  very \<^verbatim>\<open>OSError\<close> and the handle is in place, the socket as the failed call left it. After
  \<open>send\<close> the handle is gone exactly when \<open>send\<close> raised \<open>ConnectionLost\<close>, which only the
  zero-byte write and the zero-byte read do. After any other outcome a later \<open>send\<close> makes
  no connection attempt, and the retry of \<^verbatim>\<open>Console._send\<close> after another \<^verbatim>\<open>OSError\<close> is such
  a \<open>send\<close>.
\<close>

theorem send_exception_keeps_handle:
  "(socket c = Some s \<and> status s = Connected \<and> timeout s = Some tmo \<and>
      request_of command = Inr request \<and>
      send_events s = map SendN ks @ sev # outs \<and> (\<forall>k\<in>set ks. 0 < k) \<and>
      sum_list ks < length request \<and> send_raises sev = Some e \<longrightarrow>
    send command marker c net =
      Some (Raise (OSError e),
            c\<lparr>socket := Some (s\<lparr>send_events := outs,
                                  wire := wire s @ take (sum_list ks) request\<rparr>)\<rparr>,
            net)) \<and>
   (socket c = Some s \<and> status s = Connected \<and> timeout s = Some tmo \<and>
      request_of command = Inr request \<and>
      send_events s = map SendN ks @ outs \<and> (\<forall>k\<in>set ks. 0 < k) \<and>
      sum_list ks = length request \<and>
      recv_events s = map RecvBytes chunks @ rcv # ins \<and> (\<forall>ch\<in>set chunks. ch \<noteq> []) \<and>
      terminator_absent marker (concat chunks) \<and> recv_raises rcv = Some e \<longrightarrow>
    send command marker c net =
      Some (Raise (OSError e),
            c\<lparr>socket := Some (s\<lparr>send_events := outs, recv_events := ins,
                                  wire := wire s @ request\<rparr>)\<rparr>,
            net)) \<and>
   (send command marker c net = Some (r, c', net') \<longrightarrow>
      (socket c' = None \<longleftrightarrow> r = Raise (OSError ConnectionLost)) \<and>
      (r \<noteq> Raise (OSError ConnectionLost) \<longrightarrow>
         (\<forall>cmd m r2 c2 net2. send cmd m c' net' = Some (r2, c2, net2) \<longrightarrow> net2 = net') \<and>
         (\<forall>x. r = Raise (OSError x) \<and> marker = END_MARKER \<longrightarrow>
            console_send command c net = send command END_MARKER c' net')))"
proof (intro conjI impI allI)
  assume a: "socket c = Some s \<and> status s = Connected \<and> timeout s = Some tmo \<and>
      request_of command = Inr request \<and>
      send_events s = map SendN ks @ sev # outs \<and> (\<forall>k\<in>set ks. 0 < k) \<and>
      sum_list ks < length request \<and> send_raises sev = Some e"
  then have "write_loop request 0 c =
     Some (Raise (OSError e),
           c\<lparr>socket := Some (s\<lparr>send_events := outs, wire := wire s @ take (sum_list ks) request\<rparr>)\<rparr>)"
    by (intro write_loop_raises [where tmo = tmo and ev = sev]) auto
  with a show "send command marker c net =
      Some (Raise (OSError e),
            c\<lparr>socket := Some (s\<lparr>send_events := outs,
                                  wire := wire s @ take (sum_list ks) request\<rparr>)\<rparr>,
            net)"
    by (simp add: send_connected [where s = s and request = request])
next
  assume a: "socket c = Some s \<and> status s = Connected \<and> timeout s = Some tmo \<and>
      request_of command = Inr request \<and>
      send_events s = map SendN ks @ outs \<and> (\<forall>k\<in>set ks. 0 < k) \<and>
      sum_list ks = length request \<and>
      recv_events s = map RecvBytes chunks @ rcv # ins \<and> (\<forall>ch\<in>set chunks. ch \<noteq> []) \<and>
      terminator_absent marker (concat chunks) \<and> recv_raises rcv = Some e"
  let ?s1 = "s\<lparr>send_events := outs, wire := wire s @ request\<rparr>"
  let ?c' = "c\<lparr>socket := Some ?s1\<rparr>"
  have w: "write_loop request 0 c = Some (Return (), ?c')"
    using a by (intro write_loop_exact) auto
  have "read_loop marker [] ?c' =
      Some (Raise (OSError e), ?c'\<lparr>socket := Some (?s1\<lparr>recv_events := ins\<rparr>)\<rparr>)"
    using a by (intro read_loop_raises [where tmo = tmo and ev = rcv and chunks = chunks]) auto
  then have "read_reply marker ?c' =
      Some (Raise (OSError e), ?c'\<lparr>socket := Some (?s1\<lparr>recv_events := ins\<rparr>)\<rparr>)"
    by (simp add: read_reply_def)
  with w a show "send command marker c net =
      Some (Raise (OSError e),
            c\<lparr>socket := Some (s\<lparr>send_events := outs, recv_events := ins,
                                  wire := wire s @ request\<rparr>)\<rparr>,
            net)"
    by (simp add: send_connected [where s = s and request = request])
next
  assume "send command marker c net = Some (r, c', net')"
  then show "socket c' = None \<longleftrightarrow> r = Raise (OSError ConnectionLost)"
    by (rule send_socket)
next
  fix cmd m r2 c2 net2
  assume 1: "send command marker c net = Some (r, c', net')"
    and "r \<noteq> Raise (OSError ConnectionLost)" and 2: "send cmd m c' net' = Some (r2, c2, net2)"
  with send_socket [OF 1] have "socket c' \<noteq> None" by simp
  from send_net_connected [OF this 2] show "net2 = net'" .
next
  fix x
  assume "send command marker c net = Some (r, c', net')"
    and "r = Raise (OSError x) \<and> marker = END_MARKER"
  then show "console_send command c net = send command END_MARKER c' net'"
    by (simp add: console_send_def)
qed

theorem send_exception_keeps_handle_witness:
  "send (str_of ''version'') END_MARKER
      (live [SendN 8, SendN 8] [RecvBytes ''Liq'', RecvStall, RecvBytes (''ok'' @ END_MARKER)])
      [Accept [] []] =
     Some (Raise (OSError TimeoutError),
       live [] [] \<lparr>socket := Some ((established [SendN 8] [RecvBytes (''ok'' @ END_MARKER)])
          \<lparr>wire := ''version'' @ [CHR 0x0A]\<rparr>)\<rparr>,
       [Accept [] []])
   \<and> console_send (str_of ''version'')
      (live [SendN 8, SendN 8] [RecvBytes ''Liq'', RecvStall, RecvBytes (''ok'' @ END_MARKER)])
      [Accept [] []] =
     Some (Return (str_of ''ok''),
       live [] [] \<lparr>socket := Some ((established [] [])
          \<lparr>wire := ''version'' @ [CHR 0x0A] @ ''version'' @ [CHR 0x0A]\<rparr>)\<rparr>,
       [Accept [] []])
   \<and> send (str_of ''version'') END_MARKER (live [SendN 3, SendFail 32, SendN 8] []) [Accept [] []] =
     Some (Raise (OSError (Errno 32)),
       live [] [] \<lparr>socket := Some ((established [SendN 8] []) \<lparr>wire := ''ver''\<rparr>)\<rparr>,
       [Accept [] []])"
proof -
  let ?c = "live [SendN 8, SendN 8] [RecvBytes ''Liq'', RecvStall, RecvBytes (''ok'' @ END_MARKER)]"
  let ?s = "established [SendN 8, SendN 8] [RecvBytes ''Liq'', RecvStall, RecvBytes (''ok'' @ END_MARKER)]"
  let ?c1 = "live [] [] \<lparr>socket := Some ((established [SendN 8] [RecvBytes (''ok'' @ END_MARKER)])
          \<lparr>wire := ''version'' @ [CHR 0x0A]\<rparr>)\<rparr>"
  note rd = send_exception_keeps_handle [where c = ?c and s = ?s and tmo = 100
      and command = "str_of ''version''" and request = "''version'' @ [CHR 0x0A]"
      and ks = "[8]" and outs = "[SendN 8]" and chunks = "[''Liq'']" and rcv = RecvStall
      and ins = "[RecvBytes (''ok'' @ END_MARKER)]" and marker = END_MARKER
      and e = TimeoutError and net = "[Accept [] []]"
      and r = "Raise (OSError TimeoutError)" and c' = ?c1 and net' = "[Accept [] []]"]
  have hyp: "socket ?c = Some ?s \<and> status ?s = Connected \<and> timeout ?s = Some 100 \<and>
      request_of (str_of ''version'') = Inr (''version'' @ [CHR 0x0A]) \<and>
      send_events ?s = map SendN [8] @ [SendN 8] \<and> (\<forall>k\<in>set [8::nat]. 0 < k) \<and>
      sum_list [8::nat] = length (''version'' @ [CHR 0x0A]) \<and>
      recv_events ?s = map RecvBytes [''Liq''] @ RecvStall # [RecvBytes (''ok'' @ END_MARKER)] \<and>
      (\<forall>ch\<in>set [''Liq'']. ch \<noteq> []) \<and>
      terminator_absent END_MARKER (concat [''Liq'']) \<and> recv_raises RecvStall = Some TimeoutError"
    by (simp add: eval_simps terminator_absent_def)
  from rd hyp have first: "send (str_of ''version'') END_MARKER ?c [Accept [] []] =
     Some (Raise (OSError TimeoutError), ?c1, [Accept [] []])"
    by (simp add: live_def established_def)
  have second: "send (str_of ''version'') END_MARKER ?c1 [Accept [] []] =
     Some (Return (str_of ''ok''),
       live [] [] \<lparr>socket := Some ((established [] [])
          \<lparr>wire := ''version'' @ [CHR 0x0A] @ ''version'' @ [CHR 0x0A]\<rparr>)\<rparr>,
       [Accept [] []])"
    by (simp add: run_simps)
  from rd first second have cs: "console_send (str_of ''version'') ?c [Accept [] []] =
     Some (Return (str_of ''ok''),
       live [] [] \<lparr>socket := Some ((established [] [])
          \<lparr>wire := ''version'' @ [CHR 0x0A] @ ''version'' @ [CHR 0x0A]\<rparr>)\<rparr>,
       [Accept [] []])"
    by simp
  let ?d = "live [SendN 3, SendFail 32, SendN 8] []"
  let ?t = "established [SendN 3, SendFail 32, SendN 8] []"
  note wr = send_exception_keeps_handle [where c = ?d and s = ?t and tmo = 100
      and command = "str_of ''version''" and request = "''version'' @ [CHR 0x0A]"
      and ks = "[3]" and sev = "SendFail 32" and outs = "[SendN 8]" and marker = END_MARKER
      and e = "Errno 32" and net = "[Accept [] []]"]
  have hyp2: "socket ?d = Some ?t \<and> status ?t = Connected \<and> timeout ?t = Some 100 \<and>
      request_of (str_of ''version'') = Inr (''version'' @ [CHR 0x0A]) \<and>
      send_events ?t = map SendN [3] @ SendFail 32 # [SendN 8] \<and> (\<forall>k\<in>set [3::nat]. 0 < k) \<and>
      sum_list [3::nat] < length (''version'' @ [CHR 0x0A]) \<and>
      send_raises (SendFail 32) = Some (Errno 32)"
    by (simp add: eval_simps)
  from wr hyp2 have third: "send (str_of ''version'') END_MARKER ?d [Accept [] []] =
     Some (Raise (OSError (Errno 32)),
       live [] [] \<lparr>socket := Some ((established [SendN 8] []) \<lparr>wire := ''ver''\<rparr>)\<rparr>,
       [Accept [] []])"
    by (simp add: live_def established_def)
  from first cs third show ?thesis by simp
qed

end
